theory Spec2Isabelle
  imports Complex_Main "HOL-Library.AList"
begin

section \<open>Common conventions\<close>

text \<open>
  The development embeds functions of \<^verbatim>\<open>src/util.ts\<close>, \<^verbatim>\<open>src/layout.ts\<close> (which also
  holds the greedy feedback-arc-set code) and \<^verbatim>\<open>src/data/list.ts\<close>.

  JavaScript numbers are IEEE doubles. Geometry is modelled over \<^typ>\<open>real\<close>: rounding,
  \<^verbatim>\<open>NaN\<close> and the infinities are outside the model, and where the source can produce one
  of them the model says so explicitly. Weights that index bucket arrays are
  \<^typ>\<open>int\<close>.

  Every \<^verbatim>\<open>throw\<close> of the source, and every \<^verbatim>\<open>TypeError\<close> the runtime raises when a
  property of \<^verbatim>\<open>undefined\<close> is read or written, is a value of type \<open>error\<close>; a
  function that can raise returns \<open>error + 'a\<close> with \<open>Inl\<close> for the raise.
\<close>

datatype error =
    TypeError
  | Error string

subsection \<open>The ambient graph\<close>

text \<open>
  Modelled from the spec: the \<^verbatim>\<open>Graph\<close> class is imported from \<^verbatim>\<open>graphlib\<close> and is not
  part of the sources. Section 6 of the specification lists its operations
  (\<^verbatim>\<open>nodes()\<close>, \<^verbatim>\<open>edges()\<close>, \<^verbatim>\<open>node(id)\<close>, \<^verbatim>\<open>edge(src, dst, name?)\<close>, \<^verbatim>\<open>setNode\<close>,
  \<^verbatim>\<open>setEdge\<close>, \<^verbatim>\<open>removeNode\<close>, \<^verbatim>\<open>inEdges\<close>, \<^verbatim>\<open>outEdges\<close>, \<^verbatim>\<open>children\<close>, \<^verbatim>\<open>nodeCount\<close>,
  \<^verbatim>\<open>graph()\<close>), and section 3 describes the data: a directed multigraph whose nodes
  have unique string ids and a label, whose edges have a label and are identified by
  \<open>(source, target, name?)\<close>, with an optional parent relation and a graph label.

  A graph is a record of its graph label, its nodes and its edges in insertion order
  (association lists, the order \<^verbatim>\<open>nodes()\<close> and \<^verbatim>\<open>edges()\<close> enumerate), and the parent
  relation. An edge object \<^verbatim>\<open>{v, w, name}\<close> is a triple; \<open>None\<close> is an absent name.
  A lookup that finds nothing returns \<open>None\<close>, JavaScript's \<^verbatim>\<open>undefined\<close>.
\<close>

type_synonym ident = string

type_synonym edge_id = "ident \<times> ident \<times> string option"

record ('g, 'n, 'e) graph =
  g_label :: 'g
  g_nodes :: "(ident \<times> 'n) list"
  g_edges :: "(edge_id \<times> 'e) list"
  g_parent :: "ident \<Rightarrow> ident option"

definition new_Graph :: "'g \<Rightarrow> ('g, 'n, 'e) graph" where
  "new_Graph lbl = \<lparr>g_label = lbl, g_nodes = [], g_edges = [], g_parent = (\<lambda>_. None)\<rparr>"

definition nodes :: "('g, 'n, 'e) graph \<Rightarrow> ident list" where
  "nodes g = map fst (g_nodes g)"

definition node :: "('g, 'n, 'e) graph \<Rightarrow> ident \<Rightarrow> 'n option" where
  "node g v = map_of (g_nodes g) v"

definition hasNode :: "('g, 'n, 'e) graph \<Rightarrow> ident \<Rightarrow> bool" where
  "hasNode g v = (v \<in> set (nodes g))"

definition nodeCount :: "('g, 'n, 'e) graph \<Rightarrow> nat" where
  "nodeCount g = length (g_nodes g)"

definition edges :: "('g, 'n, 'e) graph \<Rightarrow> edge_id list" where
  "edges g = map fst (g_edges g)"

definition edge :: "('g, 'n, 'e) graph \<Rightarrow> edge_id \<Rightarrow> 'e option" where
  "edge g e = map_of (g_edges g) e"

definition children :: "('g, 'n, 'e) graph \<Rightarrow> ident \<Rightarrow> ident list" where
  "children g v = filter (\<lambda>u. g_parent g u = Some v) (nodes g)"

text \<open>
  \<^verbatim>\<open>setNode(v, label)\<close> replaces the label of an existing node in place and appends a
  new node otherwise; that is \<^const>\<open>AList.update\<close>.
\<close>

definition setNode :: "ident \<Rightarrow> 'n \<Rightarrow> ('g, 'n, 'e) graph \<Rightarrow> ('g, 'n, 'e) graph" where
  "setNode v lbl g = g\<lparr>g_nodes := AList.update v lbl (g_nodes g)\<rparr>"

text \<open>
  \<^verbatim>\<open>setEdge(v, w, label)\<close> on a graph that is not a multigraph (no edge name): the
  label of an existing edge is replaced; otherwise both endpoints are created if they
  are missing, with the graph's default node label \<open>dflt\<close>, and the edge is appended.
\<close>

definition ensureNode :: "'n \<Rightarrow> ident \<Rightarrow> ('g, 'n, 'e) graph \<Rightarrow> ('g, 'n, 'e) graph" where
  "ensureNode dflt v g = (if hasNode g v then g else setNode v dflt g)"

definition setEdge ::
  "'n \<Rightarrow> ident \<Rightarrow> ident \<Rightarrow> 'e \<Rightarrow> ('g, 'n, 'e) graph \<Rightarrow> ('g, 'n, 'e) graph" where
  "setEdge dflt v w lbl g =
     (if (v, w, None) \<in> set (edges g)
      then g\<lparr>g_edges := AList.update (v, w, None) lbl (g_edges g)\<rparr>
      else (let g' = ensureNode dflt w (ensureNode dflt v g)
            in g'\<lparr>g_edges := g_edges g' @ [((v, w, None), lbl)]\<rparr>))"

text \<open>
  What the library maintains for every graph it builds: node ids are unique, edge
  ids are unique, and both endpoints of every edge are nodes.
\<close>

definition wf_graph :: "('g, 'n, 'e) graph \<Rightarrow> bool" where
  "wf_graph g =
     (distinct (nodes g) \<and> distinct (edges g) \<and>
      list_all (\<lambda>(v, w, name). hasNode g v \<and> hasNode g w) (edges g))"

section \<open>Rectangle intersection (\<^verbatim>\<open>util.ts\<close>, \<^verbatim>\<open>intersectRect\<close>)\<close>

record point =
  p_x :: real
  p_y :: real

record rect =
  r_x :: real
  r_y :: real
  r_width :: real
  r_height :: real

text \<open>
  The source reassigns its local variables \<^verbatim>\<open>h\<close> and \<^verbatim>\<open>w\<close> to their negations before
  using them; \<open>h'\<close> and \<open>w'\<close> below are those reassigned locals. No field of \<^verbatim>\<open>rect\<close> or
  \<^verbatim>\<open>point\<close> is assigned anywhere in the body, so the function maps its two arguments
  to a fresh point (or raises) and has no other effect.

  \<^verbatim>\<open>!dx && !dy\<close> is true exactly when both differences are zero (a \<^verbatim>\<open>NaN\<close> is
  outside the model). Division by zero does not raise in JavaScript.
\<close>

definition intersectRect :: "rect \<Rightarrow> point \<Rightarrow> error + point" where
  "intersectRect rect point =
     (let x = r_x rect;
          y = r_y rect;
          dx = p_x point - x;
          dy = p_y point - y;
          w = r_width rect / 2;
          h = r_height rect / 2
      in if dx = 0 \<and> dy = 0
         then Inl (Error ''Not possible to find intersection inside of the rectangle'')
         else
           let (sx, sy) =
                 (if \<bar>dy\<bar> * w > \<bar>dx\<bar> * h
                  then (let h' = (if dy < 0 then - h else h) in ((h' * dx) / dy, h'))
                  else (let w' = (if dx < 0 then - w else w) in (w', (w' * dy) / dx)))
           in Inr \<lparr>p_x = x + sx, p_y = y + sy\<rparr>)"

text \<open>
  The rule as the specification words it, for comparison with the code: with half
  extents \<open>w\<close>, \<open>h\<close>, the offset \<open>(sx, sy)\<close> is on the top or bottom edge
  (\<open>sy = \<plusminus>h\<close> with the sign of \<open>dy\<close>, \<open>sx = sy \<cdot> dx / dy\<close>) when \<open>|dy| \<cdot> w > |dx| \<cdot> h\<close>, and on
  the left or right edge (\<open>sx = \<plusminus>w\<close> with the sign of \<open>dx\<close>, \<open>sy = sx \<cdot> dy / dx\<close>)
  otherwise.
\<close>

definition rect_offset :: "rect \<Rightarrow> point \<Rightarrow> real \<times> real" where
  "rect_offset rect point =
     (let dx = p_x point - r_x rect;
          dy = p_y point - r_y rect;
          w = r_width rect / 2;
          h = r_height rect / 2
      in if \<bar>dy\<bar> * w > \<bar>dx\<bar> * h
         then ((if dy < 0 then - h else h) * dx / dy, (if dy < 0 then - h else h))
         else ((if dx < 0 then - w else w), (if dx < 0 then - w else w) * dy / dx))"

section \<open>Aggregating multi-edges (\<^verbatim>\<open>util.ts\<close>, \<^verbatim>\<open>simplify\<close>)\<close>

text \<open>
  An edge label read by \<^verbatim>\<open>simplify\<close> has a \<^verbatim>\<open>weight\<close> and a \<^verbatim>\<open>minlen\<close>; whatever else
  it carries is the record's extension. The labels \<^verbatim>\<open>simplify\<close> writes have exactly
  these two attributes.
\<close>

record wlabel =
  weight :: real
  minlen :: real

text \<open>
  \<^verbatim>\<open>new Graph()\<close> is a simple directed graph, so \<^verbatim>\<open>setEdge(e.v, e.w, ...)\<close> ignores the
  name of \<^verbatim>\<open>e\<close>. The first loop copies every node with its label; the second folds
  every edge of \<^verbatim>\<open>g\<close> into the edge between the same endpoints. \<open>dflt\<close> is the label
  \<^verbatim>\<open>setEdge\<close> gives an endpoint it has to create (\<^verbatim>\<open>undefined\<close> in the library).
\<close>

definition simplify ::
  "'n \<Rightarrow> ('g, 'n, 'a wlabel_scheme) graph \<Rightarrow> ('g, 'n, wlabel) graph" where
  "simplify dflt g =
     (let simplified = new_Graph (g_label g);
          simplified = foldl (\<lambda>s (v, lbl). setNode v lbl s) simplified (g_nodes g)
      in foldl
           (\<lambda>s ((v, w, name), lbl).
              let simpleLabel =
                    (case edge s (v, w, None) of
                       Some l \<Rightarrow> l
                     | None \<Rightarrow> \<lparr>weight = 0, minlen = 1\<rparr>)
              in setEdge dflt v w
                   \<lparr>weight = weight simpleLabel + weight lbl,
                    minlen = max (minlen simpleLabel) (minlen lbl)\<rparr> s)
           simplified (g_edges g))"

text \<open>
  The edges from \<open>v\<close> to \<open>w\<close> among \<open>es\<close>, whatever their names, in insertion order;
  and the label the specification gives their aggregate: the sum of the weights, and
  the maximum over 1 and the \<^verbatim>\<open>minlen\<close> values.
\<close>

definition between :: "(edge_id \<times> 'e) list \<Rightarrow> ident \<Rightarrow> ident \<Rightarrow> (edge_id \<times> 'e) list" where
  "between es v w = filter (\<lambda>((v', w', name), lbl). v' = v \<and> w' = w) es"

definition edges_between ::
  "('g, 'n, 'e) graph \<Rightarrow> ident \<Rightarrow> ident \<Rightarrow> (edge_id \<times> 'e) list" where
  "edges_between g v w = between (g_edges g) v w"

definition agg_label :: "(edge_id \<times> 'a wlabel_scheme) list \<Rightarrow> wlabel" where
  "agg_label es = \<lparr>weight = sum_list (map (\<lambda>(e, l). weight l) es),
                  minlen = Max (insert 1 (set (map (\<lambda>(e, l). minlen l) es)))\<rparr>"

text \<open>
  One iteration of the second loop of \<^verbatim>\<open>simplify\<close> on the association list of the
  simplified edges alone (used in the proofs).
\<close>

definition agg_step ::
  "(edge_id \<times> wlabel) list \<Rightarrow> edge_id \<times> 'a wlabel_scheme \<Rightarrow> (edge_id \<times> wlabel) list" where
  "agg_step al = (\<lambda>((v, w, name), lbl).
     let simpleLabel =
           (case map_of al (v, w, None) of Some l \<Rightarrow> l | None \<Rightarrow> \<lparr>weight = 0, minlen = 1\<rparr>)
     in AList.update (v, w, None)
          \<lparr>weight = weight simpleLabel + weight lbl,
           minlen = max (minlen simpleLabel) (minlen lbl)\<rparr> al)"

text \<open>
  A multigraph with two parallel edges from \<open>a\<close> to \<open>b\<close> and one edge back, used to
  exercise \<^verbatim>\<open>simplify\<close>.
\<close>

definition parallel_edges_graph :: "(unit, unit, wlabel) graph" where
  "parallel_edges_graph =
     \<lparr>g_label = (),
      g_nodes = [(''a'', ()), (''b'', ())],
      g_edges = [((''a'', ''b'', Some ''x''), \<lparr>weight = 2, minlen = 1\<rparr>),
                 ((''b'', ''a'', None), \<lparr>weight = 1, minlen = 0\<rparr>),
                 ((''a'', ''b'', Some ''y''), \<lparr>weight = 3, minlen = 4\<rparr>)],
      g_parent = (\<lambda>_. None)\<rparr>"

section \<open>Label records of the layout graph (\<^verbatim>\<open>layout.ts\<close>)\<close>

text \<open>
  \<^verbatim>\<open>buildLayoutGraph\<close> gives every label of the layout graph its defaults
  (\<^verbatim>\<open>graphDefaults\<close>, \<^verbatim>\<open>nodeDefaults\<close>, \<^verbatim>\<open>edgeDefaults\<close>), so in the passes below the
  attributes with a default are always present; the attributes a pass may find
  missing are options. Each pass is stated for labels that have at least the
  attributes it reads (the record's extension carries the others along).

  The passes update every label in a \<^verbatim>\<open>for\<close> loop over \<^verbatim>\<open>g.nodes()\<close> or \<^verbatim>\<open>g.edges()\<close>
  through the object \<^verbatim>\<open>g.node(v)\<close> or \<^verbatim>\<open>g.edge(e)\<close>. Ids are unique and the layout
  graph's labels are distinct objects (each is built by \<^verbatim>\<open>_.merge({}, ...)\<close> or
  \<^verbatim>\<open>_.defaults\<close>), so such a loop is a map over the association list.
\<close>

record glabel =
  rankdir :: string
  ranksep :: real
  marginx :: "real option"
  marginy :: "real option"
  gl_width :: "real option"
  gl_height :: "real option"

record elabel = wlabel +
  e_width :: real
  e_height :: real
  labelpos :: string
  labeloffset :: real

section \<open>Making space for edge labels (\<^verbatim>\<open>layout.ts\<close>, \<^verbatim>\<open>makeSpaceForEdgeLabels\<close>)\<close>

text \<open>
  \<^verbatim>\<open>String.prototype.toLowerCase\<close>, on the ASCII letters (a \<^typ>\<open>string\<close> is a list of
  bytes; the values compared here are \<^verbatim>\<open>l\<close>, \<^verbatim>\<open>c\<close>, \<^verbatim>\<open>r\<close> in either case).
\<close>

definition to_lower :: "char \<Rightarrow> char" where
  "to_lower c =
     (case map_of (zip ''ABCDEFGHIJKLMNOPQRSTUVWXYZ'' ''abcdefghijklmnopqrstuvwxyz'') c of
        Some d \<Rightarrow> d
      | None \<Rightarrow> c)"

definition toLowerCase :: "string \<Rightarrow> string" where
  "toLowerCase s = map to_lower s"

text \<open>
  The comparison of \<^verbatim>\<open>graph.rankdir\<close> is \<^verbatim>\<open>===\<close> against the upper-case literals
  \<^verbatim>\<open>"TB"\<close> and \<^verbatim>\<open>"BT"\<close>; only \<^verbatim>\<open>labelpos\<close> goes through \<^verbatim>\<open>toLowerCase\<close>.
\<close>

definition makeSpaceForEdgeLabels ::
  "('a glabel_scheme, 'n, 'b elabel_scheme) graph \<Rightarrow> ('a glabel_scheme, 'n, 'b elabel_scheme) graph"
  where
  "makeSpaceForEdgeLabels g =
     (let graph = (g_label g)\<lparr>ranksep := ranksep (g_label g) / 2\<rparr>
      in g\<lparr>g_label := graph,
           g_edges :=
             map (\<lambda>(e, edge).
                    (e, let edge = edge\<lparr>minlen := minlen edge * 2\<rparr>
                        in if toLowerCase (labelpos edge) \<noteq> ''c''
                           then (if rankdir graph = ''TB'' \<or> rankdir graph = ''BT''
                                 then edge\<lparr>e_width := e_width edge + labeloffset edge\<rparr>
                                 else edge\<lparr>e_height := e_height edge + labeloffset edge\<rparr>)
                           else edge))
               (g_edges g)\<rparr>)"

text \<open>
  The layout graph of a single edge \<open>a \<rightarrow> b\<close> as \<^verbatim>\<open>buildLayoutGraph\<close> makes it when the
  caller sets no option: \<^verbatim>\<open>graphDefaults\<close> gives \<^verbatim>\<open>rankdir: "tb"\<close> and \<^verbatim>\<open>ranksep: 50\<close>,
  \<^verbatim>\<open>edgeDefaults\<close> gives \<^verbatim>\<open>minlen: 1, weight: 1, width: 0, height: 0, labeloffset: 10,
  labelpos: "r"\<close>.
\<close>

definition default_edge_graph :: "(glabel, unit, elabel) graph" where
  "default_edge_graph =
     \<lparr>g_label = \<lparr>rankdir = ''tb'', ranksep = 50, marginx = None, marginy = None,
                  gl_width = None, gl_height = None\<rparr>,
      g_nodes = [(''a'', ()), (''b'', ())],
      g_edges = [((''a'', ''b'', None),
                  \<lparr>weight = 1, minlen = 1, e_width = 0, e_height = 0,
                   labelpos = ''r'', labeloffset = 10\<rparr>)],
      g_parent = (\<lambda>_. None)\<rparr>"

section \<open>Rank spans of compound nodes (\<^verbatim>\<open>layout.ts\<close>, \<^verbatim>\<open>assignRankMinMax\<close>)\<close>

record rank_node =
  rank :: "int option"
  borderTop :: "ident option"
  borderBottom :: "ident option"
  minRank :: "int option"
  maxRank :: "int option"

record rank_glabel =
  gl_maxRank :: "int option"

text \<open>
  The source is
  \<^verbatim>\<open>for (const v of g.nodes()) var node = g.node(v)\<close>
  followed by \<^verbatim>\<open>if (node.borderTop) { ... }\<close>: the body of the loop is the single
  declaration, and the \<^verbatim>\<open>if\<close> runs once, after the loop, on the node read last.
  \<open>last_visited\<close> is that loop; it keeps the id so that the writes to \<^verbatim>\<open>node\<close> go to the
  label of that node. On a graph without nodes \<^verbatim>\<open>node\<close> is \<^verbatim>\<open>undefined\<close> and reading
  \<^verbatim>\<open>node.borderTop\<close> raises.

  \<^verbatim>\<open>node.borderTop\<close> is truthy when it is a non-empty string. \<^verbatim>\<open>_\<close> is not imported by
  the file; \<open>lodash_max\<close> stands for \<^verbatim>\<open>_.max\<close> applied to the two arguments.
\<close>

definition last_visited :: "('g, 'n, 'e) graph \<Rightarrow> ident option" where
  "last_visited g = foldl (\<lambda>cur v. Some v) None (nodes g)"

definition assignRankMinMax ::
  "(int \<Rightarrow> int option \<Rightarrow> int option) \<Rightarrow>
   ('a rank_glabel_scheme, 'b rank_node_scheme, 'e) graph \<Rightarrow>
   error + ('a rank_glabel_scheme, 'b rank_node_scheme, 'e) graph" where
  "assignRankMinMax lodash_max g =
     (let maxRank0 = 0 in
      case last_visited g of
        None \<Rightarrow> Inl TypeError
      | Some v \<Rightarrow>
          (case node g v of
             None \<Rightarrow> Inl TypeError
           | Some nd \<Rightarrow>
               (case borderTop nd of
                  Some bt \<Rightarrow>
                    if bt \<noteq> [] then
                      (case node g bt of
                         None \<Rightarrow> Inl TypeError
                       | Some t \<Rightarrow>
                           let nd1 = nd\<lparr>minRank := rank t\<rparr>;
                               g1 = setNode v nd1 g
                           in (case Option.bind (borderBottom nd1) (node g1) of
                                 None \<Rightarrow> Inl TypeError
                               | Some b \<Rightarrow>
                                   let nd2 = nd1\<lparr>maxRank := rank b\<rparr>;
                                       g2 = setNode v nd2 g1;
                                       maxRank1 = lodash_max maxRank0 (maxRank nd2)
                                   in Inr (g2\<lparr>g_label := (g_label g2)\<lparr>gl_maxRank := maxRank1\<rparr>\<rparr>)))
                    else Inr (g\<lparr>g_label := (g_label g)\<lparr>gl_maxRank := Some maxRank0\<rparr>\<rparr>)
                | None \<Rightarrow> Inr (g\<lparr>g_label := (g_label g)\<lparr>gl_maxRank := Some maxRank0\<rparr>\<rparr>))))"

text \<open>
  A compound node \<open>p\<close> with child \<open>c\<close>, and the border dummies \<open>bt\<close> (rank 0) and \<open>bb\<close>
  (rank 4) that the nesting pass added after them; \<open>p\<close> refers to them through
  \<^verbatim>\<open>borderTop\<close> and \<^verbatim>\<open>borderBottom\<close>.
\<close>

definition compound_graph :: "(rank_glabel, rank_node, unit) graph" where
  "compound_graph =
     \<lparr>g_label = \<lparr>gl_maxRank = None\<rparr>,
      g_nodes =
        [(''p'', \<lparr>rank = None, borderTop = Some ''bt'', borderBottom = Some ''bb'',
                  minRank = None, maxRank = None\<rparr>),
         (''c'', \<lparr>rank = Some 2, borderTop = None, borderBottom = None,
                  minRank = None, maxRank = None\<rparr>),
         (''bt'', \<lparr>rank = Some 0, borderTop = None, borderBottom = None,
                   minRank = None, maxRank = None\<rparr>),
         (''bb'', \<lparr>rank = Some 4, borderTop = None, borderBottom = None,
                   minRank = None, maxRank = None\<rparr>)],
      g_edges = [],
      g_parent = (\<lambda>u. if u = ''c'' then Some ''p'' else None)\<rparr>"

section \<open>Translating the layout (\<^verbatim>\<open>layout.ts\<close>, \<^verbatim>\<open>translateGraph\<close>)\<close>

text \<open>
  At this stage every node has \<^verbatim>\<open>x\<close>, \<^verbatim>\<open>y\<close>, \<^verbatim>\<open>width\<close> and \<^verbatim>\<open>height\<close>, and every edge has
  \<^verbatim>\<open>points\<close>. An edge with a label also has the label's anchor \<^verbatim>\<open>x\<close>, \<^verbatim>\<open>y\<close>; the passes
  that set the anchor set both coordinates, so it is one optional point, and
  \<^verbatim>\<open>"x" in edge\<close>, \<^verbatim>\<open>edge.x !== undefined\<close> and \<^verbatim>\<open>edge.y !== undefined\<close> all ask whether it is
  there.

  \<^verbatim>\<open>minX\<close> and \<^verbatim>\<open>minY\<close> start at \<^verbatim>\<open>Number.POSITIVE_INFINITY\<close> (\<open>PosInf\<close>), while \<^verbatim>\<open>maxX\<close> and
  \<^verbatim>\<open>maxY\<close> start at 0. When no box was seen the minima are still infinite and the
  results are infinite or \<^verbatim>\<open>NaN\<close>; the model returns \<open>None\<close> for that case, which is
  outside the reals. \<^verbatim>\<open>graphLabel.marginx || 0\<close> is 0 for a missing margin.
\<close>

record node_box =
  n_x :: real
  n_y :: real
  n_width :: real
  n_height :: real

record placed_edge = elabel +
  e_points :: "point list"
  e_anchor :: "point option"

datatype ext = Fin real | PosInf

fun ext_min :: "ext \<Rightarrow> real \<Rightarrow> ext" where
  "ext_min PosInf r = Fin r"
| "ext_min (Fin a) r = Fin (min a r)"

record extremes =
  minX :: ext
  maxX :: real
  minY :: ext
  maxY :: real

type_synonym box = "real \<times> real \<times> real \<times> real"

definition getExtremes :: "extremes \<Rightarrow> box \<Rightarrow> extremes" where
  "getExtremes acc = (\<lambda>(x, y, w, h).
     \<lparr>minX = ext_min (minX acc) (x - w / 2),
      maxX = max (maxX acc) (x + w / 2),
      minY = ext_min (minY acc) (y - h / 2),
      maxY = max (maxY acc) (y + h / 2)\<rparr>)"

definition shift_point :: "real \<Rightarrow> real \<Rightarrow> point \<Rightarrow> point" where
  "shift_point dx dy p = p\<lparr>p_x := p_x p - dx, p_y := p_y p - dy\<rparr>"

definition translateGraph ::
  "('a glabel_scheme, 'b node_box_scheme, 'c placed_edge_scheme) graph \<Rightarrow>
   ('a glabel_scheme, 'b node_box_scheme, 'c placed_edge_scheme) graph option" where
  "translateGraph g =
     (let init = \<lparr>minX = PosInf, maxX = 0, minY = PosInf, maxY = 0\<rparr>;
          graphLabel = g_label g;
          marginX = (case marginx graphLabel of Some m \<Rightarrow> m | None \<Rightarrow> 0);
          marginY = (case marginy graphLabel of Some m \<Rightarrow> m | None \<Rightarrow> 0);
          acc = foldl (\<lambda>acc (v, nd). getExtremes acc (n_x nd, n_y nd, n_width nd, n_height nd))
                  init (g_nodes g);
          acc = foldl (\<lambda>acc (e, ed).
                         case e_anchor ed of
                           Some p \<Rightarrow> getExtremes acc (p_x p, p_y p, e_width ed, e_height ed)
                         | None \<Rightarrow> acc)
                  acc (g_edges g)
      in case (minX acc, minY acc) of
           (Fin mnX, Fin mnY) \<Rightarrow>
             let minX' = mnX - marginX;
                 minY' = mnY - marginY
             in Some (g\<lparr>g_nodes :=
                          map (\<lambda>(v, nd). (v, nd\<lparr>n_x := n_x nd - minX', n_y := n_y nd - minY'\<rparr>))
                            (g_nodes g),
                        g_edges :=
                          map (\<lambda>(e, ed).
                                 (e, ed\<lparr>e_points := map (shift_point minX' minY') (e_points ed),
                                        e_anchor := map_option (shift_point minX' minY') (e_anchor ed)\<rparr>))
                            (g_edges g),
                        g_label :=
                          graphLabel\<lparr>gl_width := Some (maxX acc - minX' + marginX),
                                     gl_height := Some (maxY acc - minY' + marginY)\<rparr>\<rparr>)
         | _ \<Rightarrow> None)"

text \<open>
  The boxes the specification speaks of: the node boxes and the boxes of the edge
  labels that have an anchor, as \<open>(x, y, width, height)\<close> with \<open>(x, y)\<close> the centre; their
  four sides; and the margins.
\<close>

definition boxes ::
  "('g, 'b node_box_scheme, 'c placed_edge_scheme) graph \<Rightarrow> box list" where
  "boxes g =
     map (\<lambda>(v, nd). (n_x nd, n_y nd, n_width nd, n_height nd)) (g_nodes g) @
     concat (map (\<lambda>(e, ed). case e_anchor ed of
                                Some p \<Rightarrow> [(p_x p, p_y p, e_width ed, e_height ed)]
                              | None \<Rightarrow> [])
               (g_edges g))"

definition box_left :: "box \<Rightarrow> real" where "box_left = (\<lambda>(x, y, w, h). x - w / 2)"
definition box_right :: "box \<Rightarrow> real" where "box_right = (\<lambda>(x, y, w, h). x + w / 2)"
definition box_top :: "box \<Rightarrow> real" where "box_top = (\<lambda>(x, y, w, h). y - h / 2)"
definition box_bottom :: "box \<Rightarrow> real" where "box_bottom = (\<lambda>(x, y, w, h). y + h / 2)"

definition margin_x :: "('a glabel_scheme, 'n, 'e) graph \<Rightarrow> real" where
  "margin_x g = (case marginx (g_label g) of Some m \<Rightarrow> m | None \<Rightarrow> 0)"

definition margin_y :: "('a glabel_scheme, 'n, 'e) graph \<Rightarrow> real" where
  "margin_y g = (case marginy (g_label g) of Some m \<Rightarrow> m | None \<Rightarrow> 0)"

definition shift_box :: "real \<Rightarrow> real \<Rightarrow> box \<Rightarrow> box" where
  "shift_box dx dy = (\<lambda>(x, y, w, h). (x - dx, y - dy, w, h))"

text \<open>
  Two layouts to run \<^verbatim>\<open>translateGraph\<close> on: one node lying entirely at negative
  coordinates, and two nodes with a labelled edge and margins of 5.
\<close>

definition negative_graph :: "(glabel, node_box, placed_edge) graph" where
  "negative_graph =
     \<lparr>g_label = \<lparr>rankdir = ''tb'', ranksep = 25, marginx = None, marginy = None,
                  gl_width = None, gl_height = None\<rparr>,
      g_nodes = [(''a'', \<lparr>n_x = - 10, n_y = - 10, n_width = 2, n_height = 2\<rparr>)],
      g_edges = [],
      g_parent = (\<lambda>_. None)\<rparr>"

definition placed_graph :: "(glabel, node_box, placed_edge) graph" where
  "placed_graph =
     \<lparr>g_label = \<lparr>rankdir = ''tb'', ranksep = 25, marginx = Some 5, marginy = Some 5,
                  gl_width = None, gl_height = None\<rparr>,
      g_nodes = [(''a'', \<lparr>n_x = 10, n_y = 10, n_width = 20, n_height = 20\<rparr>),
                 (''b'', \<lparr>n_x = 10, n_y = 80, n_width = 20, n_height = 20\<rparr>)],
      g_edges = [((''a'', ''b'', None),
                  \<lparr>weight = 1, minlen = 2, e_width = 20, e_height = 10,
                   labelpos = ''r'', labeloffset = 10,
                   e_points = [\<lparr>p_x = 10, p_y = 45\<rparr>],
                   e_anchor = Some \<lparr>p_x = 40, p_y = 45\<rparr>\<rparr>)],
      g_parent = (\<lambda>_. None)\<rparr>"

section \<open>Writing the layout back (\<^verbatim>\<open>layout.ts\<close>, \<^verbatim>\<open>updateInputGraph\<close>)\<close>

text \<open>
  The labels of the input graph are the caller's objects, and \<^verbatim>\<open>updateInputGraph\<close>
  assigns to their properties. A label is therefore a reference into a store of
  objects, and an object is a finite map from property names to values; two nodes may
  share one label object. A property that is absent reads as \<^verbatim>\<open>undefined\<close>
  (\<^const>\<open>None\<close> in the map, \<open>Undefined\<close> as a value read), and \<^verbatim>\<open>k in ob\<close> asks whether
  the map has \<open>k\<close>.

  In the input graph a node or edge label may be \<^verbatim>\<open>undefined\<close> (\<open>None\<close>); so may the
  graph label. The layout graph is only read, and its labels are objects of its own
  (\<^verbatim>\<open>buildLayoutGraph\<close> builds each one afresh), so they are values here.

  The function calls only \<^verbatim>\<open>nodes()\<close>, \<^verbatim>\<open>node(v)\<close>, \<^verbatim>\<open>edges()\<close>, \<^verbatim>\<open>edge(e)\<close> and \<^verbatim>\<open>graph()\<close> of
  the input graph, none of which changes the graph: its nodes, edges and parent
  relation are an argument that is not returned, and the store is the state.
  Assigning to a property of \<^verbatim>\<open>undefined\<close>, or reading one, raises \<^verbatim>\<open>TypeError\<close>.
\<close>

datatype jsval = Undefined | Num real | Str string | Points "point list"

type_synonym obj = "string \<Rightarrow> jsval option"

definition get :: "obj \<Rightarrow> string \<Rightarrow> jsval" where
  "get ob k = (case ob k of Some v \<Rightarrow> v | None \<Rightarrow> Undefined)"

type_synonym addr = nat

type_synonym heap = "addr \<Rightarrow> obj"

type_synonym input_graph = "(addr option, addr option, addr option) graph"

type_synonym layout_graph = "(obj, obj, obj) graph"

text \<open>A \<^verbatim>\<open>for ... of\<close> loop whose body may raise: the first raise ends the loop.\<close>

fun forEach :: "('a \<Rightarrow> 's \<Rightarrow> error + 's) \<Rightarrow> 'a list \<Rightarrow> 's \<Rightarrow> error + 's" where
  "forEach f [] s = Inr s"
| "forEach f (x # xs) s = (case f x s of Inl e \<Rightarrow> Inl e | Inr s' \<Rightarrow> forEach f xs s')"

text \<open>The body of the loop over \<^verbatim>\<open>inputGraph.nodes()\<close>, and of the loop over the edges.\<close>

definition update_node ::
  "input_graph \<Rightarrow> layout_graph \<Rightarrow> ident \<Rightarrow> heap \<Rightarrow> error + heap" where
  "update_node inputGraph layoutGraph v h =
     (let inputLabel = node inputGraph v;
          layoutLabel = node layoutGraph v
      in case inputLabel of
           Some (Some a) \<Rightarrow>
             (case layoutLabel of
                None \<Rightarrow> Inl TypeError
              | Some ll \<Rightarrow>
                  let h = h(a := (h a)(''x'' \<mapsto> get ll ''x''));
                      h = h(a := (h a)(''y'' \<mapsto> get ll ''y''))
                  in if length (children layoutGraph v) \<noteq> 0
                     then let h = h(a := (h a)(''width'' \<mapsto> get ll ''width''));
                              h = h(a := (h a)(''height'' \<mapsto> get ll ''height''))
                          in Inr h
                     else Inr h)
         | _ \<Rightarrow> Inr h)"

definition update_edge ::
  "input_graph \<Rightarrow> layout_graph \<Rightarrow> edge_id \<Rightarrow> heap \<Rightarrow> error + heap" where
  "update_edge inputGraph layoutGraph e h =
     (let inputLabel = edge inputGraph e;
          layoutLabel = edge layoutGraph e
      in case (inputLabel, layoutLabel) of
           (Some (Some a), Some ll) \<Rightarrow>
             let h = h(a := (h a)(''points'' \<mapsto> get ll ''points''))
             in if ll ''x'' \<noteq> None
                then let h = h(a := (h a)(''x'' \<mapsto> get ll ''x''));
                         h = h(a := (h a)(''y'' \<mapsto> get ll ''y''))
                     in Inr h
                else Inr h
         | _ \<Rightarrow> Inl TypeError)"

definition updateInputGraph :: "input_graph \<Rightarrow> layout_graph \<Rightarrow> heap \<Rightarrow> error + heap" where
  "updateInputGraph inputGraph layoutGraph h =
     (case forEach (update_node inputGraph layoutGraph) (nodes inputGraph) h of
        Inl e \<Rightarrow> Inl e
      | Inr h \<Rightarrow>
          (case forEach (update_edge inputGraph layoutGraph) (edges inputGraph) h of
             Inl e \<Rightarrow> Inl e
           | Inr h \<Rightarrow>
               (case g_label inputGraph of
                  None \<Rightarrow> Inl TypeError
                | Some a \<Rightarrow>
                    let h = h(a := (h a)(''width'' \<mapsto> get (g_label layoutGraph) ''width''));
                        h = h(a := (h a)(''height'' \<mapsto> get (g_label layoutGraph) ''height''))
                    in Inr h)))"

text \<open>
  What the specification lists as written, as a function on one label object: for a
  node \<open>x\<close> and \<open>y\<close>, and \<open>width\<close> and \<open>height\<close> when the node has children; for an edge
  \<open>points\<close>, and \<open>x\<close> and \<open>y\<close> when the layout label has an \<open>x\<close>; for the graph label
  \<open>width\<close> and \<open>height\<close>. Every other property keeps its value. \<open>label_addrs\<close> are the
  label objects of the input graph.
\<close>

definition node_writes :: "obj \<Rightarrow> bool \<Rightarrow> obj \<Rightarrow> obj" where
  "node_writes ll has_children ob =
     (\<lambda>k. if k = ''x'' \<or> k = ''y'' \<or> (has_children \<and> (k = ''width'' \<or> k = ''height''))
          then Some (get ll k) else ob k)"

definition edge_writes :: "obj \<Rightarrow> obj \<Rightarrow> obj" where
  "edge_writes ll ob =
     (\<lambda>k. if k = ''points'' \<or> (ll ''x'' \<noteq> None \<and> (k = ''x'' \<or> k = ''y''))
          then Some (get ll k) else ob k)"

definition graph_writes :: "obj \<Rightarrow> obj \<Rightarrow> obj" where
  "graph_writes ll ob =
     (\<lambda>k. if k = ''width'' \<or> k = ''height'' then Some (get ll k) else ob k)"

definition node_label_addrs :: "input_graph \<Rightarrow> addr list" where
  "node_label_addrs g = concat (map (\<lambda>(v, l). case l of Some a \<Rightarrow> [a] | None \<Rightarrow> []) (g_nodes g))"

definition edge_label_addrs :: "input_graph \<Rightarrow> addr list" where
  "edge_label_addrs g = concat (map (\<lambda>(e, l). case l of Some a \<Rightarrow> [a] | None \<Rightarrow> []) (g_edges g))"

definition label_addrs :: "input_graph \<Rightarrow> addr list" where
  "label_addrs g =
     node_label_addrs g @ edge_label_addrs g @ (case g_label g of Some a \<Rightarrow> [a] | None \<Rightarrow> [])"

definition written_attrs :: "string set" where
  "written_attrs = {''x'', ''y'', ''width'', ''height'', ''points''}"

text \<open>
  An input graph with a compound node \<open>p\<close>, its child \<open>c\<close>, a node \<open>u\<close> without a label
  and a labelled edge; the caller's label objects; and a layout of it.
\<close>

definition input_example :: input_graph where
  "input_example =
     \<lparr>g_label = Some 0,
      g_nodes = [(''p'', Some 1), (''c'', Some 2), (''u'', None)],
      g_edges = [((''c'', ''u'', None), Some 3)],
      g_parent = (\<lambda>u. if u = ''c'' then Some ''p'' else None)\<rparr>"

definition input_heap :: heap where
  "input_heap =
     (\<lambda>a. Map.empty)
       (0 := map_of [(''rankdir'', Str ''LR'')],
        1 := map_of [(''color'', Str ''red'')],
        2 := map_of [(''width'', Num 10), (''height'', Num 10)],
        3 := map_of [(''weight'', Num 2)])"

definition layout_example :: layout_graph where
  "layout_example =
     \<lparr>g_label = map_of [(''width'', Num 200), (''height'', Num 100)],
      g_nodes =
        [(''p'', map_of [(''x'', Num 50), (''y'', Num 40), (''width'', Num 100), (''height'', Num 80)]),
         (''c'', map_of [(''x'', Num 50), (''y'', Num 40), (''width'', Num 12), (''height'', Num 12)]),
         (''u'', map_of [(''x'', Num 150), (''y'', Num 40), (''width'', Num 0), (''height'', Num 0)])],
      g_edges =
        [((''c'', ''u'', None),
          map_of [(''points'', Points [\<lparr>p_x = 56, p_y = 40\<rparr>, \<lparr>p_x = 150, p_y = 40\<rparr>]),
                  (''x'', Num 7), (''y'', Num 8)])],
      g_parent = (\<lambda>u. if u = ''c'' then Some ''p'' else None)\<rparr>"

section \<open>The linked list (\<^verbatim>\<open>data/list.ts\<close>)\<close>

text \<open>
  The list is a ring of objects linked through their \<^verbatim>\<open>_prev\<close> and \<^verbatim>\<open>_next\<close> properties, closed by
  a sentinel; an entry is any object, and the same entry object is unlinked from one
  list and linked into another. The links are therefore a store: for every object
  reference, what its \<^verbatim>\<open>_prev\<close> and its \<^verbatim>\<open>_next\<close> hold (\<open>None\<close> for \<^verbatim>\<open>undefined\<close>). A
  \<^verbatim>\<open>List\<close> object is its sentinel, which the constructor links to itself and which is
  never reassigned.

  Reading a property of \<^verbatim>\<open>undefined\<close> raises \<^verbatim>\<open>TypeError\<close>. The statements of each function
  are kept in their order, each reading the store the previous one left.
\<close>

type_synonym ref = nat

record links =
  prev_of :: "ref \<Rightarrow> ref option"
  next_of :: "ref \<Rightarrow> ref option"

definition init_List :: "ref \<Rightarrow> 'a links_scheme \<Rightarrow> 'a links_scheme" where
  "init_List sentinel L =
     (let L = L\<lparr>prev_of := (prev_of L)(sentinel \<mapsto> sentinel)\<rparr>;
          L = L\<lparr>next_of := (next_of L)(sentinel \<mapsto> sentinel)\<rparr>
      in L)"

text \<open>
  \<^verbatim>\<open>unlink\<close> joins the neighbours of the entry. The two \<^verbatim>\<open>delete\<close> statements that would
  clear the entry's own \<^verbatim>\<open>_next\<close> and \<^verbatim>\<open>_prev\<close> are commented out in the source, so the
  entry keeps both links.
\<close>

definition unlink :: "ref \<Rightarrow> 'a links_scheme \<Rightarrow> error + 'a links_scheme" where
  "unlink entry L =
     (case prev_of L entry of
        None \<Rightarrow> Inl TypeError
      | Some p \<Rightarrow>
          let L = L\<lparr>next_of := (next_of L)(p := next_of L entry)\<rparr>
          in (case next_of L entry of
                None \<Rightarrow> Inl TypeError
              | Some n \<Rightarrow> Inr (L\<lparr>prev_of := (prev_of L)(n := prev_of L entry)\<rparr>)))"

text \<open>
  \<^verbatim>\<open>dequeue\<close> takes the entry at \<^verbatim>\<open>sentinel._prev\<close> and returns \<^verbatim>\<open>undefined\<close> (\<open>None\<close>) when that
  is the sentinel itself. \<^verbatim>\<open>enqueue\<close> first unlinks an entry whose \<^verbatim>\<open>_prev\<close> and \<^verbatim>\<open>_next\<close> are
  both set, then links it in at \<^verbatim>\<open>sentinel._next\<close>.
\<close>

definition dequeue :: "ref \<Rightarrow> 'a links_scheme \<Rightarrow> error + (ref option \<times> 'a links_scheme)" where
  "dequeue sentinel L =
     (let entry = prev_of L sentinel
      in if entry \<noteq> Some sentinel
         then (case entry of
                 None \<Rightarrow> Inl TypeError
               | Some e \<Rightarrow>
                   (case unlink e L of
                      Inl err \<Rightarrow> Inl err
                    | Inr L \<Rightarrow> Inr (Some e, L)))
         else Inr (None, L))"

definition enqueue :: "ref \<Rightarrow> ref \<Rightarrow> 'a links_scheme \<Rightarrow> error + 'a links_scheme" where
  "enqueue sentinel entry L =
     (case (if prev_of L entry \<noteq> None \<and> next_of L entry \<noteq> None
            then unlink entry L else Inr L) of
        Inl err \<Rightarrow> Inl err
      | Inr L \<Rightarrow>
          let L = L\<lparr>next_of := (next_of L)(entry := next_of L sentinel)\<rparr>
          in (case next_of L sentinel of
                None \<Rightarrow> Inl TypeError
              | Some n \<Rightarrow>
                  let L = L\<lparr>prev_of := (prev_of L)(n \<mapsto> entry)\<rparr>;
                      L = L\<lparr>next_of := (next_of L)(sentinel \<mapsto> entry)\<rparr>;
                      L = L\<lparr>prev_of := (prev_of L)(entry \<mapsto> sentinel)\<rparr>
                  in Inr L))"

text \<open>
  A sequence of calls on one list, and the values its \<^verbatim>\<open>dequeue\<close> calls return, in
  order. \<open>no_links\<close> is a store of fresh objects, none of which has a link.
\<close>

datatype list_op = Enqueue ref | Dequeue

fun run_ops ::
  "ref \<Rightarrow> list_op list \<Rightarrow> 'a links_scheme \<Rightarrow> error + (ref option list \<times> 'a links_scheme)" where
  "run_ops sentinel [] L = Inr ([], L)"
| "run_ops sentinel (Enqueue e # ops) L =
     (case enqueue sentinel e L of
        Inl err \<Rightarrow> Inl err
      | Inr L \<Rightarrow> run_ops sentinel ops L)"
| "run_ops sentinel (Dequeue # ops) L =
     (case dequeue sentinel L of
        Inl err \<Rightarrow> Inl err
      | Inr (r, L) \<Rightarrow>
          (case run_ops sentinel ops L of
             Inl err \<Rightarrow> Inl err
           | Inr (rs, L) \<Rightarrow> Inr (r # rs, L)))"

definition no_links :: links where
  "no_links = \<lparr>prev_of = (\<lambda>_. None), next_of = (\<lambda>_. None)\<rparr>"

text \<open>
  What a list holds. \<open>is_queue L s xs\<close> says that in the store \<open>L\<close> the ring of the sentinel \<open>s\<close>
  consists of the distinct entries \<open>xs\<close>, oldest first: following \<^verbatim>\<open>_prev\<close> from the sentinel
  visits \<open>xs\<close> in order and comes back to the sentinel, and every \<^verbatim>\<open>_next\<close> on the way is the
  inverse link. It says nothing about the links of objects outside the ring.
\<close>

fun chain :: "'a links_scheme \<Rightarrow> ref \<Rightarrow> ref list \<Rightarrow> ref \<Rightarrow> bool" where
  "chain L a [] b = (prev_of L a = Some b \<and> next_of L b = Some a)"
| "chain L a (x # xs) b = (prev_of L a = Some x \<and> next_of L x = Some a \<and> chain L x xs b)"

definition is_queue :: "'a links_scheme \<Rightarrow> ref \<Rightarrow> ref list \<Rightarrow> bool" where
  "is_queue L s xs = (distinct (s # xs) \<and> chain L s xs s)"

text \<open>
  The four assignments of \<^verbatim>\<open>enqueue\<close> after its guard, on their own.
\<close>

definition link_in :: "ref \<Rightarrow> ref \<Rightarrow> 'a links_scheme \<Rightarrow> error + 'a links_scheme" where
  "link_in sentinel entry L =
     (let L = L\<lparr>next_of := (next_of L)(entry := next_of L sentinel)\<rparr>
      in (case next_of L sentinel of
            None \<Rightarrow> Inl TypeError
          | Some n \<Rightarrow>
              let L = L\<lparr>prev_of := (prev_of L)(n \<mapsto> entry)\<rparr>;
                  L = L\<lparr>next_of := (next_of L)(sentinel \<mapsto> entry)\<rparr>;
                  L = L\<lparr>prev_of := (prev_of L)(entry \<mapsto> sentinel)\<rparr>
              in Inr L))"

section \<open>Greedy feedback arc set (\<^verbatim>\<open>layout.ts\<close>, \<^verbatim>\<open>greedyFAS\<close>)\<close>

text \<open>
  The working graph of \<^verbatim>\<open>buildState\<close> has one entry object per node as the node's
  label, and the same objects are the entries of the bucket lists. An entry has the
  properties \<^verbatim>\<open>in\<close> and \<^verbatim>\<open>out\<close>, the links of the list, and \<^verbatim>\<open>v\<close>, which \<^verbatim>\<open>removeNode\<close> reads;
  the store holds them per reference, together with the next unused reference.
  \<^verbatim>\<open>buildState\<close> creates each entry as \<^verbatim>\<open>{ in: 0, out: 0 }\<close> (\<open>new_entry\<close>): without \<^verbatim>\<open>v\<close>.
  Weights are integers, since they index the array of buckets.
\<close>

record store = links +
  in_of :: "ref \<Rightarrow> int"
  out_of :: "ref \<Rightarrow> int"
  v_of :: "ref \<Rightarrow> ident option"
  fresh :: ref

definition empty_store :: store where
  "empty_store =
     \<lparr>prev_of = (\<lambda>_. None), next_of = (\<lambda>_. None),
      in_of = (\<lambda>_. 0), out_of = (\<lambda>_. 0), v_of = (\<lambda>_. None), fresh = 0\<rparr>"

definition new_entry :: "store \<Rightarrow> ref \<times> store" where
  "new_entry S =
     (let r = fresh S
      in (r, S\<lparr>in_of := (in_of S)(r := 0), out_of := (out_of S)(r := 0),
               v_of := (v_of S)(r := None),
               prev_of := (prev_of S)(r := None), next_of := (next_of S)(r := None),
               fresh := Suc r\<rparr>))"

definition new_List :: "store \<Rightarrow> ref \<times> store" where
  "new_List S = (let r = fresh S in (r, init_List r (S\<lparr>fresh := Suc r\<rparr>)))"

primrec new_Lists :: "nat \<Rightarrow> store \<Rightarrow> ref list \<times> store" where
  "new_Lists 0 S = ([], S)"
| "new_Lists (Suc n) S =
     (let (b, S) = new_List S;
          (bs, S) = new_Lists n S
      in (b # bs, S))"

text \<open>
  Modelled from the spec: the operations of the ambient graph that the feedback arc
  set code calls. \<^verbatim>\<open>inEdges(v)\<close> and \<^verbatim>\<open>outEdges(v)\<close> are the edges into and out of \<open>v\<close> in
  insertion order, \<^verbatim>\<open>outEdges(v, w)\<close> those of them ending in \<open>w\<close>; for an id that names
  no node, and for \<^verbatim>\<open>undefined\<close>, they return \<^verbatim>\<open>undefined\<close> (\<open>None\<close>), which \<^verbatim>\<open>_.forEach\<close>
  iterates as the empty collection (\<open>iterated\<close>). \<^verbatim>\<open>removeNode(v)\<close> removes the node,
  its edges and its place in the parent relation, and does nothing when \<open>v\<close> names no
  node. A node label of the working graph may be \<^verbatim>\<open>undefined\<close>: \<^verbatim>\<open>setEdge\<close> creates
  missing endpoints without a label.

  \<^verbatim>\<open>addNode\<close> is called by \<^verbatim>\<open>buildState\<close> but is among neither the sources nor the
  operations section 6 lists. Its result is stored in a map from node ids to strings,
  so it adds a node with the given label under an id that the library chooses, and
  returns the id. The choice is the parameter \<open>new_id\<close>, a function of the ids already
  in the graph, about which nothing is assumed. The map \<^verbatim>\<open>idMap\<close> is never read.
\<close>

type_synonym fas_graph = "(unit, ref option, int) graph"

definition addNode ::
  "(ident list \<Rightarrow> ident) \<Rightarrow> 'n \<Rightarrow> ('g, 'n, 'e) graph \<Rightarrow> ident \<times> ('g, 'n, 'e) graph" where
  "addNode new_id lbl g = (let v = new_id (nodes g) in (v, setNode v lbl g))"

definition inEdges :: "('g, 'n, 'e) graph \<Rightarrow> ident option \<Rightarrow> edge_id list option" where
  "inEdges g v =
     (case v of
        None \<Rightarrow> None
      | Some v \<Rightarrow> if hasNode g v then Some (filter (\<lambda>(u, w, name). w = v) (edges g)) else None)"

definition outEdges :: "('g, 'n, 'e) graph \<Rightarrow> ident option \<Rightarrow> edge_id list option" where
  "outEdges g v =
     (case v of
        None \<Rightarrow> None
      | Some v \<Rightarrow> if hasNode g v then Some (filter (\<lambda>(u, w, name). u = v) (edges g)) else None)"

definition outEdges_to :: "('g, 'n, 'e) graph \<Rightarrow> ident \<Rightarrow> ident \<Rightarrow> edge_id list option" where
  "outEdges_to g v w = map_option (filter (\<lambda>(u, w', name). w' = w)) (outEdges g (Some v))"

definition iterated :: "'a list option \<Rightarrow> 'a list" where
  "iterated xs = (case xs of None \<Rightarrow> [] | Some ys \<Rightarrow> ys)"

definition removeNode_graph :: "ident option \<Rightarrow> ('g, 'n, 'e) graph \<Rightarrow> ('g, 'n, 'e) graph" where
  "removeNode_graph v g =
     (case v of
        None \<Rightarrow> g
      | Some v \<Rightarrow>
          if hasNode g v
          then g\<lparr>g_nodes := filter (\<lambda>(u, l). u \<noteq> v) (g_nodes g),
                 g_edges := filter (\<lambda>((u, w, name), l). u \<noteq> v \<and> w \<noteq> v) (g_edges g),
                 g_parent := (\<lambda>u. if u = v \<or> g_parent g u = Some v then None else g_parent g u)\<rparr>
          else g)"

definition node_label :: "('g, 'n option, 'e) graph \<Rightarrow> ident \<Rightarrow> 'n option" where
  "node_label g v = (case node g v of Some l \<Rightarrow> l | None \<Rightarrow> None)"

text \<open>
  \<^verbatim>\<open>buckets[i]\<close> is \<^verbatim>\<open>undefined\<close> outside the array, and calling \<^verbatim>\<open>enqueue\<close> on it raises.
  \<^verbatim>\<open>!entry.out\<close> holds when \<^verbatim>\<open>out\<close> is 0.
\<close>

definition bucket_at :: "ref list \<Rightarrow> int \<Rightarrow> ref option" where
  "bucket_at buckets i =
     (if 0 \<le> i \<and> nat i < length buckets then Some (buckets ! nat i) else None)"

definition assignBucket :: "ref list \<Rightarrow> int \<Rightarrow> ref \<Rightarrow> store \<Rightarrow> error + store" where
  "assignBucket buckets zeroIdx entry S =
     (let idx = (if out_of S entry = 0 then 0
                 else if in_of S entry = 0 then int (length buckets) - 1
                 else out_of S entry - in_of S entry + zeroIdx)
      in case bucket_at buckets idx of
           None \<Rightarrow> Inl TypeError
         | Some b \<Rightarrow> enqueue b entry S)"

text \<open>
  \<^verbatim>\<open>removeNode\<close>: the two \<^verbatim>\<open>_.forEach\<close> loops over the edges into and out of \<^verbatim>\<open>entry.v\<close>, then
  \<^verbatim>\<open>g.removeNode(entry.v)\<close>. The result is the list of pairs pushed when
  \<^verbatim>\<open>collectPredecessors\<close> is set; without it the source returns \<^verbatim>\<open>undefined\<close>, which its
  callers ignore, and the model returns the empty list.

  The edges the loops visit come from \<^verbatim>\<open>g.inEdges\<close> and \<^verbatim>\<open>g.outEdges\<close>, so \<^verbatim>\<open>g.edge\<close> has a
  weight for each. The branch for an edge without a label only makes the lookup total:
  there the source would go on with \<^verbatim>\<open>undefined\<close> as the weight instead of raising. Reading
  \<^verbatim>\<open>.out\<close> or \<^verbatim>\<open>.in\<close> of a missing node label does raise.
\<close>

definition removeNode ::
  "fas_graph \<Rightarrow> ref list \<Rightarrow> int \<Rightarrow> ref \<Rightarrow> bool \<Rightarrow> store \<Rightarrow>
   error + ((ident \<times> ident) list \<times> fas_graph \<times> store)" where
  "removeNode g buckets zeroIdx entry collectPredecessors S =
     (let results = []
      in case forEach
                (\<lambda>(u, w, name) (results, S).
                   case edge g (u, w, name) of
                     None \<Rightarrow> Inl TypeError
                   | Some wgt \<Rightarrow>
                       (case node_label g u of
                          None \<Rightarrow> Inl TypeError
                        | Some uEntry \<Rightarrow>
                            let results = (if collectPredecessors
                                           then results @ [(u, w)]
                                           else results);
                                S = S\<lparr>out_of := (out_of S)(uEntry := out_of S uEntry - wgt)\<rparr>
                            in (case assignBucket buckets zeroIdx uEntry S of
                                  Inl err \<Rightarrow> Inl err
                                | Inr S \<Rightarrow> Inr (results, S))))
                (iterated (inEdges g (v_of S entry))) (results, S) of
           Inl err \<Rightarrow> Inl err
         | Inr (results, S) \<Rightarrow>
             (case forEach
                     (\<lambda>(u, w, name) S.
                        case edge g (u, w, name) of
                          None \<Rightarrow> Inl TypeError
                        | Some wgt \<Rightarrow>
                            (case node_label g w of
                               None \<Rightarrow> Inl TypeError
                             | Some wEntry \<Rightarrow>
                                 let S = S\<lparr>in_of := (in_of S)(wEntry := in_of S wEntry - wgt)\<rparr>
                                 in assignBucket buckets zeroIdx wEntry S))
                     (iterated (outEdges g (v_of S entry))) S of
                Inl err \<Rightarrow> Inl err
              | Inr S' \<Rightarrow> Inr (results, removeNode_graph (v_of S entry) g, S')))"

text \<open>
  The loops of \<^verbatim>\<open>doGreedyFAS\<close>. \<open>drain\<close> is
  \<^verbatim>\<open>while ((entry = bucket.dequeue())) removeNode(g, buckets, zeroIdx, entry)\<close>;
  \<open>pick_interior i\<close> is the \<^verbatim>\<open>for\<close> loop from bucket \<open>i\<close> down to bucket 1, which stops at
  the first bucket that yields an entry; \<open>doGreedyFAS_loop\<close> is the outer
  \<^verbatim>\<open>while (g.nodeCount())\<close>. The two \<^verbatim>\<open>while\<close> loops need not end: they are partial functions,
  and \<open>None\<close> is a run that does not return.
\<close>

partial_function (option) drain ::
  "ref \<Rightarrow> ref list \<Rightarrow> int \<Rightarrow> fas_graph \<times> store \<Rightarrow> (error + fas_graph \<times> store) option" where
  "drain bucket buckets zeroIdx gS =
     (case dequeue bucket (snd gS) of
        Inl err \<Rightarrow> Some (Inl err)
      | Inr (None, S) \<Rightarrow> Some (Inr (fst gS, S))
      | Inr (Some entry, S) \<Rightarrow>
          (case removeNode (fst gS) buckets zeroIdx entry False S of
             Inl err \<Rightarrow> Some (Inl err)
           | Inr (r, g, S) \<Rightarrow> drain bucket buckets zeroIdx (g, S)))"

fun pick_interior ::
  "nat \<Rightarrow> ref list \<Rightarrow> int \<Rightarrow> fas_graph \<Rightarrow> store \<Rightarrow>
   error + ((ident \<times> ident) list \<times> fas_graph \<times> store)" where
  "pick_interior 0 buckets zeroIdx g S = Inr ([], g, S)"
| "pick_interior (Suc i) buckets zeroIdx g S =
     (case dequeue (buckets ! Suc i) S of
        Inl err \<Rightarrow> Inl err
      | Inr (None, S) \<Rightarrow> pick_interior i buckets zeroIdx g S
      | Inr (Some entry, S) \<Rightarrow>
          removeNode g buckets zeroIdx entry True S)"

partial_function (option) doGreedyFAS_loop ::
  "ref list \<Rightarrow> int \<Rightarrow> (ident \<times> ident) list \<times> fas_graph \<times> store \<Rightarrow>
   (error + (ident \<times> ident) list) option" where
  "doGreedyFAS_loop buckets zeroIdx st =
     (case st of (results, g, S) \<Rightarrow>
        if nodeCount g = 0 then Some (Inr results)
        else
          (case (bucket_at buckets 0, bucket_at buckets (int (length buckets) - 1)) of
             (Some sinks, Some sources) \<Rightarrow>
               (case drain sinks buckets zeroIdx (g, S) of
                  None \<Rightarrow> None
                | Some (Inl err) \<Rightarrow> Some (Inl err)
                | Some (Inr gS) \<Rightarrow>
                    (case drain sources buckets zeroIdx gS of
                       None \<Rightarrow> None
                     | Some (Inl err) \<Rightarrow> Some (Inl err)
                     | Some (Inr (g, S)) \<Rightarrow>
                         if nodeCount g \<noteq> 0
                         then (case pick_interior (length buckets - 2) buckets zeroIdx g S of
                                 Inl err \<Rightarrow> Some (Inl err)
                               | Inr (rs, g, S) \<Rightarrow>
                                   doGreedyFAS_loop buckets zeroIdx (results @ rs, g, S))
                         else doGreedyFAS_loop buckets zeroIdx (results, g, S)))
           | _ \<Rightarrow> Some (Inl TypeError)))"

definition doGreedyFAS ::
  "fas_graph \<Rightarrow> ref list \<Rightarrow> int \<Rightarrow> store \<Rightarrow> (error + (ident \<times> ident) list) option" where
  "doGreedyFAS g buckets zeroIdx S = doGreedyFAS_loop buckets zeroIdx ([], g, S)"

text \<open>
  \<^verbatim>\<open>buildState\<close>: one entry per node of \<open>g\<close>, added with \<^verbatim>\<open>addNode\<close>; then every edge of \<open>g\<close>
  is folded into the working graph under its own endpoint ids \<^verbatim>\<open>e.v\<close>, \<^verbatim>\<open>e.w\<close>, and the
  entries \<^verbatim>\<open>fasGraph.node(e.v)\<close> and \<^verbatim>\<open>fasGraph.node(e.w)\<close> are updated; then the buckets
  are made (\<^verbatim>\<open>_.range(n)\<close> has \<open>|n|\<close> elements) and every node's entry is put in its
  bucket. All objects are created here, so the store starts empty.
\<close>

definition buildState ::
  "(ident list \<Rightarrow> ident) \<Rightarrow> (edge_id \<Rightarrow> int) \<Rightarrow> ('g, 'n, 'e) graph \<Rightarrow>
   error + (fas_graph \<times> ref list \<times> int \<times> store)" where
  "buildState new_id weightFn g =
     (let fasGraph = new_Graph ();
          maxIn = 0;
          maxOut = 0;
          (fasGraph, S) =
             foldl (\<lambda>(fasGraph, S) nodeId.
                      let (entry, S) = new_entry S;
                          (v, fasGraph) = addNode new_id (Some entry) fasGraph
                      in (fasGraph, S))
               (fasGraph, empty_store) (nodes g)
      in case forEach
                (\<lambda>(v, w, name) (fasGraph, S, maxIn, maxOut).
                   let prevWeight = (case edge fasGraph (v, w, None) of Some x \<Rightarrow> x | None \<Rightarrow> 0);
                       wgt = weightFn (v, w, name);
                       edgeWeight = prevWeight + wgt;
                       fasGraph = setEdge None v w edgeWeight fasGraph
                   in case node_label fasGraph v of
                        None \<Rightarrow> Inl TypeError
                      | Some vEntry \<Rightarrow>
                          let S = S\<lparr>out_of := (out_of S)(vEntry := out_of S vEntry + wgt)\<rparr>;
                              maxOut = max maxOut (out_of S vEntry)
                          in (case node_label fasGraph w of
                                None \<Rightarrow> Inl TypeError
                              | Some wEntry \<Rightarrow>
                                  let S = S\<lparr>in_of := (in_of S)(wEntry := in_of S wEntry + wgt)\<rparr>;
                                      maxIn = max maxIn (in_of S wEntry)
                                  in Inr (fasGraph, S, maxIn, maxOut)))
                (edges g) (fasGraph, S, maxIn, maxOut) of
           Inl err \<Rightarrow> Inl err
         | Inr (fasGraph, S, maxIn, maxOut) \<Rightarrow>
             let (buckets, S) = new_Lists (nat \<bar>maxOut + maxIn + 3\<bar>) S;
                 zeroIdx = maxIn + 1
             in (case forEach
                        (\<lambda>v S. case node_label fasGraph v of
                                  None \<Rightarrow> Inl TypeError
                                | Some entry \<Rightarrow> assignBucket buckets zeroIdx entry S)
                        (nodes fasGraph) S of
                   Inl err \<Rightarrow> Inl err
                 | Inr S \<Rightarrow> Inr (fasGraph, buckets, zeroIdx, S)))"

text \<open>
  The last statement of \<^verbatim>\<open>greedyFAS\<close>: each recorded pair is replaced by
  \<^verbatim>\<open>g.outEdges(e.v, e.w)\<close> and the lists are flattened one level, which keeps an
  \<^verbatim>\<open>undefined\<close> as an element.
\<close>

definition expand_multi_edges ::
  "('g, 'n, 'e) graph \<Rightarrow> (ident \<times> ident) list \<Rightarrow> edge_id option list" where
  "expand_multi_edges g results =
     concat (map (\<lambda>(v, w). case outEdges_to g v w of
                               Some es \<Rightarrow> map Some es
                             | None \<Rightarrow> [None])
               results)"

definition greedyFAS ::
  "(ident list \<Rightarrow> ident) \<Rightarrow> ('g, 'n, 'e) graph \<Rightarrow> (edge_id \<Rightarrow> int) \<Rightarrow>
   (error + edge_id option list) option" where
  "greedyFAS new_id g weightFn =
     (if nodeCount g \<le> 1 then Some (Inr [])
      else
        (case buildState new_id weightFn g of
           Inl err \<Rightarrow> Some (Inl err)
         | Inr (fasGraph, buckets, zeroIdx, S) \<Rightarrow>
             (case doGreedyFAS fasGraph buckets zeroIdx S of
                None \<Rightarrow> None
              | Some (Inl err) \<Rightarrow> Some (Inl err)
              | Some (Inr results) \<Rightarrow> Some (Inr (expand_multi_edges g results)))))"

text \<open>
  Inputs. Two nodes without an edge; two nodes and one edge; a multigraph with two
  parallel edges from \<open>a\<close> to \<open>b\<close> and one edge back. \<open>numbered_id\<close> is one possible choice
  of \<^verbatim>\<open>addNode\<close>: the \<open>k\<close>-th node gets an id of length \<open>k\<close>. \<open>parallel_edges\<close> are all edges
  of a graph between two given endpoints, in insertion order.
\<close>

definition two_isolated_nodes :: "(unit, unit, unit) graph" where
  "two_isolated_nodes =
     \<lparr>g_label = (), g_nodes = [(''a'', ()), (''b'', ())], g_edges = [], g_parent = (\<lambda>_. None)\<rparr>"

definition single_edge_graph :: "(unit, unit, unit) graph" where
  "single_edge_graph =
     \<lparr>g_label = (), g_nodes = [(''a'', ()), (''b'', ())],
      g_edges = [((''a'', ''b'', None), ())], g_parent = (\<lambda>_. None)\<rparr>"

definition two_parallel_graph :: "(unit, unit, unit) graph" where
  "two_parallel_graph =
     \<lparr>g_label = (), g_nodes = [(''a'', ()), (''b'', ())],
      g_edges = [((''a'', ''b'', Some ''x''), ()), ((''b'', ''a'', None), ()),
                 ((''a'', ''b'', Some ''y''), ())],
      g_parent = (\<lambda>_. None)\<rparr>"

definition numbered_id :: "ident list \<Rightarrow> ident" where
  "numbered_id ids = replicate (length ids) CHR ''n''"

text \<open>
  Another choice of \<^verbatim>\<open>addNode\<close>, the one most favourable to \<^verbatim>\<open>buildState\<close> on a graph with the
  nodes \<open>a\<close> and \<open>b\<close>: the first node added gets the id \<open>a\<close>, every later one the id \<open>b\<close>, so
  that the ids of the working graph are those of the original graph.
\<close>

definition same_ids :: "ident list \<Rightarrow> ident" where
  "same_ids ids = (if ids = [] then ''a'' else ''b'')"

definition parallel_edges :: "('g, 'n, 'e) graph \<Rightarrow> ident \<Rightarrow> ident \<Rightarrow> edge_id list" where
  "parallel_edges g v w = filter (\<lambda>(v', w', name). v' = v \<and> w' = w) (edges g)"

text \<open>
  A state of \<^verbatim>\<open>doGreedyFAS\<close> on the working graph of that multigraph, as it would be with
  entries that carry their node id in \<^verbatim>\<open>v\<close>: entry 0 is node \<open>a\<close> (\<open>in = 3\<close>, \<open>out = 2\<close>), in
  bucket 3; entry 1 is node \<open>b\<close> (\<open>in = 2\<close>, \<open>out = 3\<close>), just taken from bucket 5. The
  sentinels of the nine buckets are the references 2 to 10 and \<open>zeroIdx\<close> is 4.
\<close>

definition two_cycle_working_graph :: fas_graph where
  "two_cycle_working_graph =
     \<lparr>g_label = (),
      g_nodes = [(''a'', Some 0), (''b'', Some 1)],
      g_edges = [((''a'', ''b'', None), 2), ((''b'', ''a'', None), 3)],
      g_parent = (\<lambda>_. None)\<rparr>"

definition two_cycle_buckets :: "ref list" where
  "two_cycle_buckets = [2, 3, 4, 5, 6, 7, 8, 9, 10]"

definition two_cycle_store :: store where
  "two_cycle_store =
     \<lparr>prev_of = (\<lambda>_. None)(2 \<mapsto> 2, 3 \<mapsto> 3, 4 \<mapsto> 4, 6 \<mapsto> 6, 7 \<mapsto> 7, 8 \<mapsto> 8, 9 \<mapsto> 9,
                               10 \<mapsto> 10, 5 \<mapsto> 0, 0 \<mapsto> 5, 1 \<mapsto> 7),
      next_of = (\<lambda>_. None)(2 \<mapsto> 2, 3 \<mapsto> 3, 4 \<mapsto> 4, 6 \<mapsto> 6, 7 \<mapsto> 7, 8 \<mapsto> 8, 9 \<mapsto> 9,
                               10 \<mapsto> 10, 5 \<mapsto> 0, 0 \<mapsto> 5, 1 \<mapsto> 7),
      in_of = (\<lambda>_. 0)(0 := 3, 1 := 2),
      out_of = (\<lambda>_. 0)(0 := 2, 1 := 3),
      v_of = (\<lambda>_. None)(0 \<mapsto> ''a'', 1 \<mapsto> ''b''),
      fresh = 11\<rparr>"

section \<open>Properties of \<^verbatim>\<open>intersectRect\<close>\<close>

lemma intersectRect_offset:
  "p_x point \<noteq> r_x rect \<or> p_y point \<noteq> r_y rect \<Longrightarrow>
   intersectRect rect point =
     Inr \<lparr>p_x = r_x rect + fst (rect_offset rect point),
          p_y = r_y rect + snd (rect_offset rect point)\<rparr>"
  by (auto simp: intersectRect_def rect_offset_def Let_def)

lemma off_bounds:
  fixes dx dy w h :: real
  assumes "0 < w" "0 < h" "dx \<noteq> 0 \<or> dy \<noteq> 0"
  shows "\<bar>dy\<bar> * w > \<bar>dx\<bar> * h \<Longrightarrow> \<bar>(if dy < 0 then - h else h) * dx / dy\<bar> \<le> w"
    and "\<not> \<bar>dy\<bar> * w > \<bar>dx\<bar> * h \<Longrightarrow> \<bar>(if dx < 0 then - w else w) * dy / dx\<bar> \<le> h"
    and "\<not> \<bar>dy\<bar> * w > \<bar>dx\<bar> * h \<Longrightarrow> dx \<noteq> 0"
proof -
  { assume a: "\<bar>dy\<bar> * w > \<bar>dx\<bar> * h"
    have "0 \<le> \<bar>dx\<bar> * h" using assms by simp
    with a have "dy \<noteq> 0" by auto
    then have "\<bar>dy\<bar> > 0" by simp
    have "\<bar>(if dy < 0 then - h else h) * dx / dy\<bar> = h * \<bar>dx\<bar> / \<bar>dy\<bar>"
      using assms by (simp add: abs_mult)
    also have "\<dots> \<le> w" using a \<open>\<bar>dy\<bar> > 0\<close> by (simp add: divide_le_eq mult.commute)
    finally show "\<bar>(if dy < 0 then - h else h) * dx / dy\<bar> \<le> w" . }
  { assume a: "\<not> \<bar>dy\<bar> * w > \<bar>dx\<bar> * h"
    show "dx \<noteq> 0"
    proof
      assume "dx = 0"
      with a have "\<bar>dy\<bar> * w \<le> 0" by simp
      with assms(1) have "\<bar>dy\<bar> \<le> 0" by (simp add: mult_le_0_iff)
      with \<open>dx = 0\<close> assms(3) show False by simp
    qed
    then have "\<bar>dx\<bar> > 0" by simp
    have "\<bar>(if dx < 0 then - w else w) * dy / dx\<bar> = w * \<bar>dy\<bar> / \<bar>dx\<bar>"
      using assms by (simp add: abs_mult)
    also have "\<dots> \<le> h" using a \<open>\<bar>dx\<bar> > 0\<close> by (simp add: divide_le_eq mult.commute)
    finally show "\<bar>(if dx < 0 then - w else w) * dy / dx\<bar> \<le> h" . }
qed


text \<open>
  Claim C2. For a rectangle with centre \<open>(x, y)\<close> and positive width and height and a point
  distinct from the centre, \<^verbatim>\<open>intersectRect\<close> returns \<open>(x + sx, y + sy)\<close> with \<open>(sx, sy)\<close>
  computed by the stated rule (\<^const>\<open>rect_offset\<close>: top or bottom edge when
  \<open>|dy| \<cdot> w > |dx| \<cdot> h\<close>, left or right edge otherwise), and the returned point lies on the
  boundary: \<open>|sx| \<le> w\<close> and \<open>|sy| \<le> h\<close> for the half extents \<open>w\<close>, \<open>h\<close>, with equality in
  at least one coordinate.
\<close>

theorem intersectRect_boundary:
  assumes "0 < r_width rect" and "0 < r_height rect"
    and "p_x point \<noteq> r_x rect \<or> p_y point \<noteq> r_y rect"
  shows "intersectRect rect point =
           Inr \<lparr>p_x = r_x rect + fst (rect_offset rect point),
                p_y = r_y rect + snd (rect_offset rect point)\<rparr>
         \<and> \<bar>fst (rect_offset rect point)\<bar> \<le> r_width rect / 2
         \<and> \<bar>snd (rect_offset rect point)\<bar> \<le> r_height rect / 2
         \<and> (\<bar>fst (rect_offset rect point)\<bar> = r_width rect / 2
            \<or> \<bar>snd (rect_offset rect point)\<bar> = r_height rect / 2)"
proof -
  let ?dx = "p_x point - r_x rect" and ?dy = "p_y point - r_y rect"
  let ?w = "r_width rect / 2" and ?h = "r_height rect / 2"
  have pos: "0 < ?w" "0 < ?h" and nz: "?dx \<noteq> 0 \<or> ?dy \<noteq> 0"
    using assms by auto
  note b = off_bounds[OF pos nz]
  show ?thesis
  proof (cases "\<bar>?dy\<bar> * ?w > \<bar>?dx\<bar> * ?h")
    case True
    then have "rect_offset rect point =
        ((if ?dy < 0 then - ?h else ?h) * ?dx / ?dy, (if ?dy < 0 then - ?h else ?h))"
      by (simp add: rect_offset_def Let_def)
    then show ?thesis
      using b(1)[OF True] pos intersectRect_offset[OF assms(3)] by auto
  next
    case False
    then have "rect_offset rect point =
        ((if ?dx < 0 then - ?w else ?w), (if ?dx < 0 then - ?w else ?w) * ?dy / ?dx)"
      by (simp add: rect_offset_def Let_def)
    then show ?thesis
      using b(2)[OF False] pos intersectRect_offset[OF assms(3)] by auto
  qed
qed

theorem intersectRect_boundary_witness:
  "intersectRect \<lparr>r_x = 0, r_y = 0, r_width = 2, r_height = 2\<rparr> \<lparr>p_x = 1, p_y = - 2\<rparr>
     = Inr \<lparr>p_x = 1 / 2, p_y = - 1\<rparr>
   \<and> rect_offset \<lparr>r_x = 0, r_y = 0, r_width = 2, r_height = 2\<rparr> \<lparr>p_x = 1, p_y = - 2\<rparr>
     = (1 / 2, - 1)"
  using intersectRect_boundary
    [of "\<lparr>r_x = 0, r_y = 0, r_width = 2, r_height = 2\<rparr>" "\<lparr>p_x = 1, p_y = - 2\<rparr>"]
  by (simp add: rect_offset_def)

text \<open>
  Claim C3. \<^verbatim>\<open>intersectRect\<close> raises exactly when the point equals the centre of the
  rectangle (both differences are zero); for every other point it returns a point.
  The function is a map from its two arguments to the outcome: it assigns to no field
  of either argument.
\<close>

theorem intersectRect_raises_iff:
  "(\<exists>e. intersectRect rect point = Inl e)
     = (p_x point - r_x rect = 0 \<and> p_y point - r_y rect = 0)
   \<and> (\<exists>q. intersectRect rect point = Inr q)
     = (\<not> (p_x point - r_x rect = 0 \<and> p_y point - r_y rect = 0))"
  by (auto simp: intersectRect_def Let_def split: prod.splits)

section \<open>Properties of \<^verbatim>\<open>simplify\<close>\<close>


lemma update_fresh_append:
  "k \<notin> fst ` set al \<Longrightarrow> AList.update k v al = al @ [(k, v)]"
  by (induction al) auto

lemma node_loop_fields:
  "distinct (map fst (g_nodes s) @ map fst xs) \<Longrightarrow>
   foldl (\<lambda>s (v, lbl). setNode v lbl s) s xs = s\<lparr>g_nodes := g_nodes s @ xs\<rparr>"
proof (induction xs arbitrary: s)
  case Nil
  then show ?case by simp
next
  case (Cons x xs)
  obtain v l where x: "x = (v, l)" by (cases x)
  have fresh: "v \<notin> fst ` set (g_nodes s)" using Cons.prems x by auto
  have step: "setNode v l s = s\<lparr>g_nodes := g_nodes s @ [(v, l)]\<rparr>"
    by (simp add: setNode_def update_fresh_append[OF fresh])
  have "distinct (map fst (g_nodes (setNode v l s)) @ map fst xs)"
    using Cons.prems x by (simp add: step)
  from Cons.IH[OF this] show ?case by (simp add: x step)
qed

lemma setEdge_known_nodes:
  "hasNode g v \<Longrightarrow> hasNode g w \<Longrightarrow>
   setEdge dflt v w lbl g = g\<lparr>g_edges := AList.update (v, w, None) lbl (g_edges g)\<rparr>"
  by (auto simp: setEdge_def ensureNode_def edges_def Let_def update_fresh_append)

lemma edge_loop_fields:
  fixes es :: "(edge_id \<times> 'a wlabel_scheme) list"
  assumes "list_all (\<lambda>((v, w, name), lbl). hasNode s v \<and> hasNode s w) es"
  shows "foldl (\<lambda>s ((v, w, name), lbl).
              let simpleLabel =
                    (case edge s (v, w, None) of
                       Some l \<Rightarrow> l
                     | None \<Rightarrow> \<lparr>weight = 0, minlen = 1\<rparr>)
              in setEdge dflt v w
                   \<lparr>weight = weight simpleLabel + weight lbl,
                    minlen = max (minlen simpleLabel) (minlen lbl)\<rparr> s) s es
         = s\<lparr>g_edges := foldl agg_step (g_edges s) es\<rparr>"
  using assms
proof (induction es arbitrary: s)
  case Nil
  then show ?case by simp
next
  case (Cons x es)
  obtain v w name lbl where x: "x = ((v, w, name), lbl)" by (cases x) auto
  have hv: "hasNode s v" "hasNode s w" using Cons.prems x by auto
  let ?s' = "s\<lparr>g_edges := agg_step (g_edges s) x\<rparr>"
  have "list_all (\<lambda>((v, w, name), lbl). hasNode ?s' v \<and> hasNode ?s' w) es"
    using Cons.prems by (simp add: hasNode_def nodes_def)
  from Cons.IH[OF this] show ?case
    by (simp add: x agg_step_def setEdge_known_nodes[OF hv] edge_def Let_def)
qed


lemma agg_label_snoc:
  "agg_label (es @ [(e, l)]) =
     \<lparr>weight = weight (agg_label es) + weight l, minlen = max (minlen (agg_label es)) (minlen l)\<rparr>"
proof -
  let ?S = "insert 1 (set (map (\<lambda>(e, l). minlen l) es))"
  have "Max (insert (minlen l) ?S) = max (minlen l) (Max ?S)"
    by (rule Max_insert) auto
  then show ?thesis
    by (simp add: agg_label_def insert_commute max.commute)
qed

lemma agg_label_Nil: "agg_label [] = \<lparr>weight = 0, minlen = 1\<rparr>"
  by (simp add: agg_label_def)

lemma set_alist_update_subset:
  "set (AList.update k v al) \<subseteq> insert (k, v) (set al)"
  by (induction al) auto

lemma agg_step_keys:
  fixes es :: "(edge_id \<times> 'a wlabel_scheme) list"
  shows "distinct (map fst (foldl agg_step [] es))
       \<and> list_all (\<lambda>((v, w, name), l). name = None) (foldl agg_step [] es)"
proof (induction es rule: rev_induct)
  case Nil
  show ?case by simp
next
  case (snoc x es)
  obtain a b n l where x: "x = ((a, b, n), l)" by (cases x) auto
  let ?al = "foldl agg_step [] es"
  obtain new where step: "agg_step ?al x = AList.update (a, b, None) new ?al"
    by (simp add: x agg_step_def Let_def)
  have "set (AList.update (a, b, None) new ?al) \<subseteq> insert ((a, b, None), new) (set ?al)"
    by (rule set_alist_update_subset)
  then have "list_all (\<lambda>((v, w, name), l). name = None) (AList.update (a, b, None) new ?al)"
    using snoc.IH unfolding list_all_iff by auto
  then show ?case using snoc.IH by (simp add: step distinct_update)
qed

lemma agg_step_map_of:
  fixes es :: "(edge_id \<times> 'a wlabel_scheme) list"
  shows "map_of (foldl agg_step [] es) (v, w, None) =
           (if between es v w = [] then None else Some (agg_label (between es v w)))"
proof (induction es arbitrary: v w rule: rev_induct)
  case Nil
  show ?case by (simp add: between_def)
next
  case (snoc x es)
  obtain a b n l where x: "x = ((a, b, n), l)" by (cases x) auto
  let ?al = "foldl agg_step [] es"
  let ?new = "\<lparr>weight = weight (agg_label (between es a b)) + weight l,
               minlen = max (minlen (agg_label (between es a b))) (minlen l)\<rparr>"
  have sl: "(case map_of ?al (a, b, None) of Some l \<Rightarrow> l | None \<Rightarrow> \<lparr>weight = 0, minlen = 1\<rparr>)
              = agg_label (between es a b)"
    by (simp add: snoc.IH agg_label_Nil)
  have step: "agg_step ?al x = AList.update (a, b, None) ?new ?al"
    by (simp add: x agg_step_def sl Let_def)
  show ?case
  proof (cases "(a, b) = (v, w)")
    case True
    then have "between (es @ [x]) v w = between es v w @ [((a, b, n), l)]"
      by (simp add: between_def x)
    then show ?thesis using True by (simp add: step update_conv' agg_label_snoc)
  next
    case False
    then have "between (es @ [x]) v w = between es v w"
      by (auto simp: between_def x)
    then show ?thesis using False snoc.IH by (auto simp: step update_conv')
  qed
qed


lemma between_simple:
  "distinct (map fst al) \<Longrightarrow> list_all (\<lambda>((v, w, name), l). name = None) al \<Longrightarrow>
   between al v w = (case map_of al (v, w, None) of None \<Rightarrow> [] | Some l \<Rightarrow> [((v, w, None), l)])"
proof (induction al)
  case Nil
  show ?case by (simp add: between_def)
next
  case (Cons x al)
  obtain a b n l where x: "x = ((a, b, n), l)" by (cases x) auto
  have n: "n = None" using Cons.prems(2) x by simp
  have IH: "between al v w = (case map_of al (v, w, None) of None \<Rightarrow> [] | Some l \<Rightarrow> [((v, w, None), l)])"
    using Cons by simp
  show ?case
  proof (cases "(a, b) = (v, w)")
    case True
    then have "(v, w, None) \<notin> fst ` set al" using Cons.prems(1) x n by auto
    then have "map_of al (v, w, None) = None" by (simp add: map_of_eq_None_iff)
    then have "between al v w = []" using IH by simp
    then show ?thesis using True x n by (simp add: between_def)
  next
    case False
    then have "between (x # al) v w = between al v w" by (auto simp: between_def x)
    then show ?thesis using False IH x by auto
  qed
qed

lemma simple_keys_distinct_pairs:
  "distinct (map fst al) \<Longrightarrow> list_all (\<lambda>((v, w, name), l). name = None) al \<Longrightarrow>
   distinct (map (\<lambda>(v, w, name). (v, w)) (map fst al))"
proof (induction al)
  case Nil
  show ?case by simp
next
  case (Cons x al)
  obtain a b n l where x: "x = ((a, b, n), l)" by (cases x) auto
  have n: "n = None" using Cons.prems(2) x by simp
  have "(a, b) \<notin> (\<lambda>(v, w, name). (v, w)) ` fst ` set al"
  proof
    assume "(a, b) \<in> (\<lambda>(v, w, name). (v, w)) ` fst ` set al"
    then obtain n' l' where m: "((a, b, n'), l') \<in> set al" by force
    then have "n' = None" using Cons.prems(2) by (auto simp: list_all_iff)
    with m have "(a, b, None) \<in> fst ` set al" by force
    then show False using Cons.prems(1) x n by simp
  qed
  then show ?case using Cons x by (simp add: image_image)
qed

text \<open>
  Claim C6. For a graph \<open>g\<close> whose edge labels have a weight and a \<^verbatim>\<open>minlen\<close> (a graph as
  the library builds it: \<^const>\<open>wf_graph\<close>), \<^verbatim>\<open>simplify(g)\<close> has the graph label, the nodes
  and the node labels of \<open>g\<close>, has no two edges between the same ordered pair of nodes,
  and for every ordered pair \<open>(v, w)\<close> its edges from \<open>v\<close> to \<open>w\<close> are: none when \<open>g\<close> has
  none, and otherwise exactly one, whose weight is the sum of the weights of the edges
  of \<open>g\<close> from \<open>v\<close> to \<open>w\<close> and whose \<^verbatim>\<open>minlen\<close> is the maximum over 1 and their \<^verbatim>\<open>minlen\<close>
  values (\<^const>\<open>agg_label\<close>).
\<close>

theorem simplify_aggregates:
  fixes g :: "('g, 'n, 'a wlabel_scheme) graph"
  assumes "wf_graph g"
  shows "g_label (simplify dflt g) = g_label g
       \<and> g_nodes (simplify dflt g) = g_nodes g
       \<and> distinct (map (\<lambda>(v, w, name). (v, w)) (edges (simplify dflt g)))
       \<and> (\<forall>v w. edges_between (simplify dflt g) v w =
                (if edges_between g v w = [] then []
                 else [((v, w, None), agg_label (edges_between g v w))]))"
proof -
  let ?s0 = "new_Graph (g_label g) :: ('g, 'n, wlabel) graph"
  let ?s1 = "?s0\<lparr>g_nodes := g_nodes g\<rparr>"
  have d: "distinct (map fst (g_nodes g))"
    using assms by (simp add: wf_graph_def nodes_def)
  have nodes_loop: "foldl (\<lambda>s (v, lbl). setNode v lbl s) ?s0 (g_nodes g) = ?s1"
    using node_loop_fields[of ?s0 "g_nodes g"] d by (simp add: new_Graph_def)
  have ends: "list_all (\<lambda>((v, w, name), lbl). hasNode ?s1 v \<and> hasNode ?s1 w) (g_edges g)"
  proof -
    have "hasNode g v \<and> hasNode g w" if "((v, w, name), lbl) \<in> set (g_edges g)" for v w name lbl
    proof -
      from that have "(v, w, name) \<in> set (edges g)" by (force simp: edges_def)
      with assms show ?thesis by (auto simp: wf_graph_def list_all_iff)
    qed
    then show ?thesis by (auto simp: list_all_iff hasNode_def nodes_def)
  qed
  have res: "simplify dflt g = ?s1\<lparr>g_edges := foldl agg_step [] (g_edges g)\<rparr>"
    unfolding simplify_def Let_def nodes_loop
    using edge_loop_fields[OF ends, of dflt, unfolded Let_def] by (simp add: new_Graph_def)
  note k = agg_step_keys[of "g_edges g"]
  have "distinct (map (\<lambda>(v, w, name). (v, w)) (edges (simplify dflt g)))"
    using simple_keys_distinct_pairs[OF conjunct1[OF k] conjunct2[OF k]]
    by (simp add: res edges_def)
  moreover have "edges_between (simplify dflt g) v w =
                (if edges_between g v w = [] then []
                 else [((v, w, None), agg_label (edges_between g v w))])" for v w
    using between_simple[OF conjunct1[OF k] conjunct2[OF k], of v w]
    by (simp add: res edges_between_def agg_step_map_of)
  ultimately show ?thesis by (simp add: res new_Graph_def)
qed

theorem simplify_aggregates_witness:
  "wf_graph parallel_edges_graph
   \<and> g_nodes (simplify () parallel_edges_graph) = [(''a'', ()), (''b'', ())]
   \<and> edges_between (simplify () parallel_edges_graph) ''a'' ''b''
       = [((''a'', ''b'', None), \<lparr>weight = 5, minlen = 4\<rparr>)]
   \<and> edges_between (simplify () parallel_edges_graph) ''b'' ''a''
       = [((''b'', ''a'', None), \<lparr>weight = 1, minlen = 1\<rparr>)]
   \<and> edges_between (simplify () parallel_edges_graph) ''b'' ''b'' = []"
proof -
  have wf: "wf_graph parallel_edges_graph"
    by (simp add: wf_graph_def parallel_edges_graph_def nodes_def edges_def hasNode_def)
  have ab: "edges_between parallel_edges_graph ''a'' ''b''
              = [((''a'', ''b'', Some ''x''), \<lparr>weight = 2, minlen = 1\<rparr>),
                 ((''a'', ''b'', Some ''y''), \<lparr>weight = 3, minlen = 4\<rparr>)]"
    and ba: "edges_between parallel_edges_graph ''b'' ''a''
              = [((''b'', ''a'', None), \<lparr>weight = 1, minlen = 0\<rparr>)]"
    and bb: "edges_between parallel_edges_graph ''b'' ''b'' = []"
    by (simp_all add: edges_between_def between_def parallel_edges_graph_def)
  from simplify_aggregates[OF wf, of "()"] wf show ?thesis
    by (simp add: ab ba bb agg_label_def) (simp add: parallel_edges_graph_def)
qed

section \<open>Properties of \<^verbatim>\<open>makeSpaceForEdgeLabels\<close>\<close>

lemma makeSpaceForEdgeLabels_label:
  "ranksep (g_label (makeSpaceForEdgeLabels g)) = ranksep (g_label g) / 2"
  "rankdir (g_label (makeSpaceForEdgeLabels g)) = rankdir (g_label g)"
  "g_nodes (makeSpaceForEdgeLabels g) = g_nodes g"
  "edges (makeSpaceForEdgeLabels g) = edges g"
  by (simp_all add: makeSpaceForEdgeLabels_def Let_def edges_def case_prod_unfold comp_def)

lemma makeSpaceForEdgeLabels_edge:
  assumes "distinct (edges g)" and "edge g e = Some l"
  shows "\<exists>l'. edge (makeSpaceForEdgeLabels g) e = Some l'
            \<and> minlen l' = 2 * minlen l
            \<and> e_width l' =
                (if toLowerCase (labelpos l) \<noteq> ''c''
                    \<and> (rankdir (g_label g) = ''TB'' \<or> rankdir (g_label g) = ''BT'')
                 then e_width l + labeloffset l else e_width l)
            \<and> e_height l' =
                (if toLowerCase (labelpos l) \<noteq> ''c''
                    \<and> \<not> (rankdir (g_label g) = ''TB'' \<or> rankdir (g_label g) = ''BT'')
                 then e_height l + labeloffset l else e_height l)"
proof -
  have m: "(e, l) \<in> set (g_edges g)"
    using assms(2) by (simp add: edge_def map_of_SomeD)
  let ?f = "\<lambda>edge. let edge = edge\<lparr>minlen := minlen edge * 2\<rparr>
                        in if toLowerCase (labelpos edge) \<noteq> ''c''
                           then (if rankdir (g_label g) = ''TB'' \<or> rankdir (g_label g) = ''BT''
                                 then edge\<lparr>e_width := e_width edge + labeloffset edge\<rparr>
                                 else edge\<lparr>e_height := e_height edge + labeloffset edge\<rparr>)
                           else edge"
  have "g_edges (makeSpaceForEdgeLabels g) = map (\<lambda>(e, edge). (e, ?f edge)) (g_edges g)"
    by (auto simp: makeSpaceForEdgeLabels_def Let_def)
  then have "edge (makeSpaceForEdgeLabels g) e = map_option ?f (edge g e)"
    by (simp add: edge_def map_of_map)
  then show ?thesis using assms(2) by (simp add: Let_def)
qed

text \<open>
  Claim C5, at the failing input. With the default \<^verbatim>\<open>rankdir: "tb"\<close> and an edge with
  the default \<^verbatim>\<open>labelpos: "r"\<close> and \<^verbatim>\<open>labeloffset: 10\<close>, \<^verbatim>\<open>makeSpaceForEdgeLabels\<close> halves
  \<^verbatim>\<open>ranksep\<close> and doubles \<^verbatim>\<open>minlen\<close>, and adds the offset to the edge's height: the
  width stays 0. The claim has it added to the width for a top-bottom layout.
\<close>

theorem makeSpaceForEdgeLabels_default_rankdir:
  "makeSpaceForEdgeLabels default_edge_graph =
     default_edge_graph
       \<lparr>g_label := (g_label default_edge_graph)\<lparr>ranksep := 25\<rparr>,
        g_edges := [((''a'', ''b'', None),
                     \<lparr>weight = 1, minlen = 2, e_width = 0, e_height = 10,
                      labelpos = ''r'', labeloffset = 10\<rparr>)]\<rparr>"
  by (simp add: makeSpaceForEdgeLabels_def default_edge_graph_def toLowerCase_def to_lower_def)

section \<open>Properties of \<^verbatim>\<open>assignRankMinMax\<close>\<close>

lemma last_visited_last:
  "last_visited g = (if g_nodes g = [] then None else Some (fst (last (g_nodes g))))"
proof -
  have "foldl (\<lambda>cur v. Some v) a xs = (if xs = [] then a else Some (last xs))" for a and xs :: "ident list"
    by (induction xs arbitrary: a) auto
  then show ?thesis by (simp add: last_visited_def nodes_def last_map)
qed

text \<open>
  Claim C8, at the failing input. On the compound graph whose last node is the border
  dummy \<open>bb\<close>, \<^verbatim>\<open>assignRankMinMax\<close> changes no node: the parent \<open>p\<close> keeps \<^verbatim>\<open>minRank\<close> and
  \<^verbatim>\<open>maxRank\<close> undefined, and the graph label's \<^verbatim>\<open>maxRank\<close> is 0; the claim has
  \<open>minRank = 0\<close>, \<open>maxRank = 4\<close> on \<open>p\<close> and \<open>maxRank = 4\<close> on the graph label. This holds
  whatever \<^verbatim>\<open>_.max\<close> computes, since it is not reached.
\<close>

theorem assignRankMinMax_skips_parent:
  "assignRankMinMax lodash_max compound_graph =
     Inr (compound_graph\<lparr>g_label := \<lparr>gl_maxRank = Some 0\<rparr>\<rparr>)"
  by (simp add: assignRankMinMax_def last_visited_last node_def compound_graph_def)

section \<open>Properties of \<^verbatim>\<open>translateGraph\<close>\<close>

lemma foldl_ext_min:
  "foldl ext_min e xs =
     (if xs = [] then e
      else Fin (case e of PosInf \<Rightarrow> Min (set xs) | Fin a \<Rightarrow> min a (Min (set xs))))"
proof (induction xs arbitrary: e)
  case Nil
  show ?case by simp
next
  case (Cons x xs)
  show ?case
  proof (cases xs)
    case Nil
    then show ?thesis by (cases e) auto
  next
    case (Cons y ys)
    then have ne: "xs \<noteq> []" by simp
    have "Min (set (x # xs)) = min x (Min (set xs))"
      using ne by simp
    then show ?thesis using Cons.IH[of "ext_min e x"] ne
      by (cases e) (auto simp: min.assoc)
  qed
qed

lemma foldl_max_real:
  "foldl max (a::real) xs = (if xs = [] then a else max a (Max (set xs)))"
proof (induction xs arbitrary: a)
  case Nil
  show ?case by simp
next
  case (Cons x xs)
  show ?case
  proof (cases xs)
    case Nil
    then show ?thesis by simp
  next
    case (Cons y ys)
    then have ne: "xs \<noteq> []" by simp
    have "Max (set (x # xs)) = max x (Max (set xs))"
      using ne by simp
    then show ?thesis using Cons.IH[of "max a x"] ne
      by (auto simp: max.assoc)
  qed
qed

lemma getExtremes_box:
  "getExtremes acc b =
     \<lparr>minX = ext_min (minX acc) (box_left b),
      maxX = max (maxX acc) (box_right b),
      minY = ext_min (minY acc) (box_top b),
      maxY = max (maxY acc) (box_bottom b)\<rparr>"
  by (simp add: getExtremes_def box_left_def box_right_def box_top_def box_bottom_def
      split: prod.splits)

lemma getExtremes_sel:
  "minX (getExtremes acc b) = ext_min (minX acc) (box_left b)"
  "maxX (getExtremes acc b) = max (maxX acc) (box_right b)"
  "minY (getExtremes acc b) = ext_min (minY acc) (box_top b)"
  "maxY (getExtremes acc b) = max (maxY acc) (box_bottom b)"
  by (simp_all add: getExtremes_box)

lemma foldl_getExtremes:
  "foldl getExtremes acc bs =
     \<lparr>minX = foldl ext_min (minX acc) (map box_left bs),
      maxX = foldl max (maxX acc) (map box_right bs),
      minY = foldl ext_min (minY acc) (map box_top bs),
      maxY = foldl max (maxY acc) (map box_bottom bs)\<rparr>"
proof (induction bs arbitrary: acc)
  case Nil
  show ?case by simp
next
  case (Cons b bs)
  show ?case
    by (simp add: Cons.IH getExtremes_sel)
qed

lemma node_extremes_fold:
  "foldl (\<lambda>acc (v, nd). getExtremes acc (n_x nd, n_y nd, n_width nd, n_height nd)) acc ns =
   foldl getExtremes acc (map (\<lambda>(v, nd). (n_x nd, n_y nd, n_width nd, n_height nd)) ns)"
  by (induction ns arbitrary: acc) (auto split: prod.splits)

lemma edge_extremes_fold:
  "foldl (\<lambda>acc (e, ed).
            case e_anchor ed of
              Some p \<Rightarrow> getExtremes acc (p_x p, p_y p, e_width ed, e_height ed)
            | None \<Rightarrow> acc) acc es =
   foldl getExtremes acc
     (concat (map (\<lambda>(e, ed). case e_anchor ed of
                                Some p \<Rightarrow> [(p_x p, p_y p, e_width ed, e_height ed)]
                              | None \<Rightarrow> []) es))"
  by (induction es arbitrary: acc) (auto split: prod.splits option.splits)

lemma extremes_of_graph:
  "foldl (\<lambda>acc (e, ed).
            case e_anchor ed of
              Some p \<Rightarrow> getExtremes acc (p_x p, p_y p, e_width ed, e_height ed)
            | None \<Rightarrow> acc)
     (foldl (\<lambda>acc (v, nd). getExtremes acc (n_x nd, n_y nd, n_width nd, n_height nd))
        acc (g_nodes g))
     (g_edges g)
   = foldl getExtremes acc (boxes g)"
  by (simp add: node_extremes_fold edge_extremes_fold boxes_def)

lemma shift_box_sides:
  "box_left (shift_box dx dy b) = box_left b - dx"
  "box_right (shift_box dx dy b) = box_right b - dx"
  "box_top (shift_box dx dy b) = box_top b - dy"
  "box_bottom (shift_box dx dy b) = box_bottom b - dy"
  by (simp_all add: shift_box_def box_left_def box_right_def box_top_def box_bottom_def
      split: prod.splits)

lemma boxes_shifted:
  "boxes (g\<lparr>g_nodes := map (\<lambda>(v, nd). (v, nd\<lparr>n_x := n_x nd - dx, n_y := n_y nd - dy\<rparr>)) (g_nodes g),
            g_edges := map (\<lambda>(e, ed).
                              (e, ed\<lparr>e_points := map (shift_point dx dy) (e_points ed),
                                     e_anchor := map_option (shift_point dx dy) (e_anchor ed)\<rparr>))
                         (g_edges g),
            g_label := l\<rparr>)
   = map (shift_box dx dy) (boxes g)"
proof -
  have n: "map (\<lambda>(v, nd). (n_x nd, n_y nd, n_width nd, n_height nd))
             (map (\<lambda>(v, nd). (v, nd\<lparr>n_x := n_x nd - dx, n_y := n_y nd - dy\<rparr>)) ns)
           = map (shift_box dx dy) (map (\<lambda>(v, nd). (n_x nd, n_y nd, n_width nd, n_height nd)) ns)"
    for ns :: "(ident \<times> 'b node_box_scheme) list"
    by (induction ns) (auto simp: shift_box_def)
  have e: "concat (map (\<lambda>(e, ed). case e_anchor ed of
                                Some p \<Rightarrow> [(p_x p, p_y p, e_width ed, e_height ed)]
                              | None \<Rightarrow> [])
             (map (\<lambda>(e, ed).
                              (e, ed\<lparr>e_points := map (shift_point dx dy) (e_points ed),
                                     e_anchor := map_option (shift_point dx dy) (e_anchor ed)\<rparr>)) es))
           = map (shift_box dx dy)
               (concat (map (\<lambda>(e, ed). case e_anchor ed of
                                Some p \<Rightarrow> [(p_x p, p_y p, e_width ed, e_height ed)]
                              | None \<Rightarrow> []) es))"
    for es :: "(edge_id \<times> 'c placed_edge_scheme) list"
    by (induction es) (auto simp: shift_box_def shift_point_def split: option.splits)
  show ?thesis by (simp add: boxes_def n e del: map_map)
qed

lemma Min_shift:
  fixes xs :: "real list"
  assumes "xs \<noteq> []"
  shows "Min (set (map (\<lambda>x. x - c) xs)) = Min (set xs) - c"
proof -
  have "Min ((\<lambda>x. x + (- c)) ` set xs) = Min (set xs) + (- c)"
    using assms by (intro Min_add_commute[where f = "\<lambda>x. x", simplified]) auto
  then show ?thesis by simp
qed

text \<open>
  What \<^verbatim>\<open>translateGraph\<close> does establish on a graph with at least one node: every box
  lies within the margins, the smallest left and top sides are exactly the margins,
  and the width and height are measured from the smallest left (top) side to the
  largest right (bottom) side or to 0, whichever is larger, plus twice the margin.
\<close>

lemma translateGraph_bounds:
  assumes "g_nodes g \<noteq> []"
  shows "\<exists>g' W H. translateGraph g = Some g'
      \<and> gl_width (g_label g') = Some W \<and> gl_height (g_label g') = Some H
      \<and> list_all (\<lambda>b. margin_x g \<le> box_left b \<and> box_right b \<le> W - margin_x g
                     \<and> margin_y g \<le> box_top b \<and> box_bottom b \<le> H - margin_y g) (boxes g')
      \<and> Min (set (map box_left (boxes g'))) = margin_x g
      \<and> Min (set (map box_top (boxes g'))) = margin_y g
      \<and> W = max 0 (Max (set (map box_right (boxes g)))) - Min (set (map box_left (boxes g)))
            + 2 * margin_x g
      \<and> H = max 0 (Max (set (map box_bottom (boxes g)))) - Min (set (map box_top (boxes g)))
            + 2 * margin_y g"
proof -
  let ?bs = "boxes g"
  let ?L = "Min (set (map box_left ?bs))" and ?R = "Max (set (map box_right ?bs))"
  let ?T = "Min (set (map box_top ?bs))" and ?B = "Max (set (map box_bottom ?bs))"
  let ?dx = "?L - margin_x g" and ?dy = "?T - margin_y g"
  let ?W = "max 0 ?R - ?dx + margin_x g" and ?H = "max 0 ?B - ?dy + margin_y g"
  let ?g' = "g\<lparr>g_nodes := map (\<lambda>(v, nd). (v, nd\<lparr>n_x := n_x nd - ?dx, n_y := n_y nd - ?dy\<rparr>)) (g_nodes g),
            g_edges := map (\<lambda>(e, ed).
                              (e, ed\<lparr>e_points := map (shift_point ?dx ?dy) (e_points ed),
                                     e_anchor := map_option (shift_point ?dx ?dy) (e_anchor ed)\<rparr>))
                         (g_edges g),
            g_label := (g_label g)\<lparr>gl_width := Some ?W, gl_height := Some ?H\<rparr>\<rparr>"
  have ne: "?bs \<noteq> []" using assms by (simp add: boxes_def)
  have acc: "foldl getExtremes \<lparr>minX = PosInf, maxX = 0, minY = PosInf, maxY = 0\<rparr> ?bs
          = \<lparr>minX = Fin ?L, maxX = max 0 ?R, minY = Fin ?T, maxY = max 0 ?B\<rparr>"
    using ne by (simp add: foldl_getExtremes foldl_ext_min foldl_max_real)
  have res: "translateGraph g = Some ?g'"
    by (simp add: translateGraph_def extremes_of_graph acc margin_x_def margin_y_def Let_def)
  have bs': "boxes ?g' = map (shift_box ?dx ?dy) ?bs"
    by (rule boxes_shifted)
  have inside: "margin_x g \<le> box_left b - ?dx \<and> box_right b - ?dx \<le> ?W - margin_x g
              \<and> margin_y g \<le> box_top b - ?dy \<and> box_bottom b - ?dy \<le> ?H - margin_y g"
    if "b \<in> set ?bs" for b
  proof -
    have "?L \<le> box_left b" "box_right b \<le> ?R" "?T \<le> box_top b" "box_bottom b \<le> ?B"
      using that by (auto intro!: Min_le Max_ge)
    then show ?thesis by auto
  qed
  have all: "list_all (\<lambda>b. margin_x g \<le> box_left b \<and> box_right b \<le> ?W - margin_x g
                     \<and> margin_y g \<le> box_top b \<and> box_bottom b \<le> ?H - margin_y g) (boxes ?g')"
    unfolding bs' list_all_iff using inside by (auto simp: shift_box_sides)
  have minl: "Min (set (map box_left (boxes ?g'))) = margin_x g"
  proof -
    have "map box_left (boxes ?g') = map (\<lambda>x. x - ?dx) (map box_left ?bs)"
      by (simp only: bs') (simp add: shift_box_sides comp_def)
    then show ?thesis using Min_shift[of "map box_left ?bs" ?dx] ne by simp
  qed
  have mint: "Min (set (map box_top (boxes ?g'))) = margin_y g"
  proof -
    have "map box_top (boxes ?g') = map (\<lambda>x. x - ?dy) (map box_top ?bs)"
      by (simp only: bs') (simp add: shift_box_sides comp_def)
    then show ?thesis using Min_shift[of "map box_top ?bs" ?dy] ne by simp
  qed
  show ?thesis
    apply (rule exI[of _ ?g'], rule exI[of _ ?W], rule exI[of _ ?H])
    using res all minl mint by simp
qed

text \<open>
  Claim C4, at the failing input. For the single node centred at \<open>(-10, -10)\<close> with
  width and height 2 and no margins, the bounding box spans 2 in each direction, so
  the claim has the graph label's width equal to 2; \<^verbatim>\<open>translateGraph\<close> sets it to 11,
  because \<^verbatim>\<open>maxX\<close> starts at 0 and the largest right edge, \<open>-9\<close>, never replaces it.
\<close>

theorem translateGraph_width_counterexample:
  "\<exists>g'. translateGraph negative_graph = Some g'
       \<and> gl_width (g_label g') = Some 11
       \<and> Max (set (map box_right (boxes negative_graph)))
           - Min (set (map box_left (boxes negative_graph)))
           + 2 * margin_x negative_graph = 2"
  by (simp add: translateGraph_def negative_graph_def getExtremes_def boxes_def
      box_left_def box_right_def margin_x_def)

lemma translateGraph_bounds_example:
  "g_nodes placed_graph \<noteq> []
   \<and> (\<exists>g'. translateGraph placed_graph = Some g'
         \<and> gl_width (g_label g') = Some 60 \<and> gl_height (g_label g') = Some 100
         \<and> Min (set (map box_left (boxes g'))) = 5
         \<and> Min (set (map box_top (boxes g'))) = 5)"
proof -
  have ne: "g_nodes placed_graph \<noteq> []" by (simp add: placed_graph_def)
  have bs: "boxes placed_graph = [(10, 10, 20, 20), (10, 80, 20, 20), (40, 45, 20, 10)]"
    by (simp add: boxes_def placed_graph_def)
  have m: "margin_x placed_graph = 5" "margin_y placed_graph = 5"
    by (simp_all add: margin_x_def margin_y_def placed_graph_def)
  from translateGraph_bounds[OF ne] obtain g' W H where
    "translateGraph placed_graph = Some g'"
    "gl_width (g_label g') = Some W" "gl_height (g_label g') = Some H"
    "Min (set (map box_left (boxes g'))) = margin_x placed_graph"
    "Min (set (map box_top (boxes g'))) = margin_y placed_graph"
    "W = max 0 (Max (set (map box_right (boxes placed_graph))))
           - Min (set (map box_left (boxes placed_graph))) + 2 * margin_x placed_graph"
    "H = max 0 (Max (set (map box_bottom (boxes placed_graph))))
           - Min (set (map box_top (boxes placed_graph))) + 2 * margin_y placed_graph"
    by blast
  then show ?thesis using ne
    by (simp add: bs m box_left_def box_right_def box_top_def box_bottom_def)
qed

section \<open>Properties of \<^verbatim>\<open>updateInputGraph\<close>\<close>

lemma update_node_effect:
  assumes "update_node ig lg v h = Inr h'"
  shows "(\<exists>a ll. node ig v = Some (Some a) \<and> node lg v = Some ll
              \<and> h' = h(a := node_writes ll (children lg v \<noteq> []) (h a)))
         \<or> ((node ig v = None \<or> node ig v = Some None) \<and> h' = h)"
proof (cases "node ig v")
  case None
  then show ?thesis using assms by (simp add: update_node_def)
next
  case (Some l)
  show ?thesis
  proof (cases l)
    case None
    then show ?thesis using assms Some by (simp add: update_node_def)
  next
    case (Some a)
    with \<open>node ig v = Some l\<close> have iv: "node ig v = Some (Some a)" by simp
    from assms iv obtain ll where ll: "node lg v = Some ll"
      by (auto simp: update_node_def split: option.splits)
    have "update_node ig lg v h = Inr (h(a := node_writes ll (children lg v \<noteq> []) (h a)))"
      using iv ll by (auto simp: update_node_def node_writes_def Let_def fun_eq_iff)
    with assms have "h' = h(a := node_writes ll (children lg v \<noteq> []) (h a))" by simp
    then show ?thesis using iv ll by blast
  qed
qed

lemma update_edge_effect:
  assumes "update_edge ig lg e h = Inr h'"
  shows "\<exists>a ll. edge ig e = Some (Some a) \<and> edge lg e = Some ll
              \<and> h' = h(a := edge_writes ll (h a))"
proof -
  from assms obtain a ll where al: "edge ig e = Some (Some a)" "edge lg e = Some ll"
    by (auto simp: update_edge_def split: option.splits)
  have "update_edge ig lg e h = Inr (h(a := edge_writes ll (h a)))"
    using al by (auto simp: update_edge_def edge_writes_def Let_def fun_eq_iff)
  with assms have "h' = h(a := edge_writes ll (h a))" by simp
  then show ?thesis using al by blast
qed

lemma node_writes_idem [simp]:
  "node_writes ll c (node_writes ll c ob) = node_writes ll c ob"
  by (auto simp: node_writes_def fun_eq_iff)

lemma edge_writes_idem [simp]:
  "edge_writes ll (edge_writes ll ob) = edge_writes ll ob"
  by (auto simp: edge_writes_def fun_eq_iff)

lemma forEach_Cons_Inr:
  "forEach f (x # xs) s = Inr s'' \<Longrightarrow> \<exists>s'. f x s = Inr s' \<and> forEach f xs s' = Inr s''"
  by (auto split: sum.splits)

lemma node_loop_effect:
  assumes inj0: "\<forall>v v' a. node ig v = Some (Some a) \<longrightarrow> node ig v' = Some (Some a) \<longrightarrow> v = v'"
    and run: "forEach (update_node ig lg) vs h = Inr h'"
  shows "(\<forall>v\<in>set vs. node ig v \<noteq> Some (Some a)) \<Longrightarrow> h' a = h a"
    and "v \<in> set vs \<Longrightarrow> node ig v = Some (Some a) \<Longrightarrow>
         \<exists>ll. node lg v = Some ll \<and> h' a = node_writes ll (children lg v \<noteq> []) (h a)"
  using run
proof (induction vs arbitrary: h)
  case Nil
  { case 1 then show ?case by simp }
  { case 2 then show ?case by simp }
next
  case (Cons x xs)
  { case 1
    from forEach_Cons_Inr[OF "1.prems"(2)] obtain h1 where
      s: "update_node ig lg x h = Inr h1" and r: "forEach (update_node ig lg) xs h1 = Inr h'"
      by blast
    have "h1 a = h a"
      using update_node_effect[OF s] "1.prems"(1) by auto
    moreover have "h' a = h1 a"
      using Cons.IH(1)[OF _ r] "1.prems"(1) by simp
    ultimately show ?case by simp }
  { case 2
    from forEach_Cons_Inr[OF "2.prems"(3)] obtain h1 where
      s: "update_node ig lg x h = Inr h1" and r: "forEach (update_node ig lg) xs h1 = Inr h'"
      by blast
    have h1: "h1 a = h a \<or> (x = v \<and> (\<exists>ll. node lg v = Some ll
                \<and> h1 a = node_writes ll (children lg v \<noteq> []) (h a)))"
      using update_node_effect[OF s] inj0[rule_format, OF "2.prems"(2)] by (auto split: if_splits)
    show ?case
    proof (cases "v \<in> set xs")
      case True
      from Cons.IH(2)[OF True "2.prems"(2) r] obtain ll where
        "node lg v = Some ll" "h' a = node_writes ll (children lg v \<noteq> []) (h1 a)" by blast
      then show ?thesis using h1 by auto
    next
      case False
      then have xv: "x = v" using "2.prems"(1) by simp
      have none: "\<forall>u\<in>set xs. node ig u \<noteq> Some (Some a)"
        using False inj0[rule_format, OF "2.prems"(2)] by auto
      have "h' a = h1 a" using Cons.IH(1)[OF none r] .
      moreover from update_node_effect[OF s] "2.prems"(2) xv
      have "\<exists>ll. node lg v = Some ll \<and> h1 a = node_writes ll (children lg v \<noteq> []) (h a)"
        by auto
      ultimately show ?thesis by auto
    qed }
qed

lemma edge_loop_effect:
  assumes inj0: "\<forall>e e' a. edge ig e = Some (Some a) \<longrightarrow> edge ig e' = Some (Some a) \<longrightarrow> e = e'"
    and run: "forEach (update_edge ig lg) es h = Inr h'"
  shows "(\<forall>e\<in>set es. edge ig e \<noteq> Some (Some a)) \<Longrightarrow> h' a = h a"
    and "e \<in> set es \<Longrightarrow> edge ig e = Some (Some a) \<Longrightarrow>
         \<exists>ll. edge lg e = Some ll \<and> h' a = edge_writes ll (h a)"
  using run
proof (induction es arbitrary: h)
  case Nil
  { case 1 then show ?case by simp }
  { case 2 then show ?case by simp }
next
  case (Cons x xs)
  { case 1
    from forEach_Cons_Inr[OF "1.prems"(2)] obtain h1 where
      s: "update_edge ig lg x h = Inr h1" and r: "forEach (update_edge ig lg) xs h1 = Inr h'"
      by blast
    have "h1 a = h a"
      using update_edge_effect[OF s] "1.prems"(1) by auto
    moreover have "h' a = h1 a"
      using Cons.IH(1)[OF _ r] "1.prems"(1) by simp
    ultimately show ?case by simp }
  { case 2
    from forEach_Cons_Inr[OF "2.prems"(3)] obtain h1 where
      s: "update_edge ig lg x h = Inr h1" and r: "forEach (update_edge ig lg) xs h1 = Inr h'"
      by blast
    have h1: "h1 a = h a \<or> (x = e \<and> (\<exists>ll. edge lg e = Some ll
                \<and> h1 a = edge_writes ll (h a)))"
    proof -
      from update_edge_effect[OF s] obtain a' ll where
        e1: "edge ig x = Some (Some a')" "edge lg x = Some ll"
          "h1 = h(a' := edge_writes ll (h a'))" by blast
      show ?thesis
      proof (cases "a' = a")
        case True
        with e1(1) have "e = x" using inj0[rule_format, OF "2.prems"(2)] by simp
        then show ?thesis using e1 True by simp
      next
        case False
        then show ?thesis using e1(3) by simp
      qed
    qed
    show ?case
    proof (cases "e \<in> set xs")
      case True
      from Cons.IH(2)[OF True "2.prems"(2) r] obtain ll where
        "edge lg e = Some ll" "h' a = edge_writes ll (h1 a)" by blast
      then show ?thesis using h1 by auto
    next
      case False
      then have xv: "x = e" using "2.prems"(1) by simp
      have none: "\<forall>u\<in>set xs. edge ig u \<noteq> Some (Some a)"
        using False inj0[rule_format, OF "2.prems"(2)] by auto
      have "h' a = h1 a" using Cons.IH(1)[OF none r] .
      moreover from update_edge_effect[OF s] "2.prems"(2) xv
      have "\<exists>ll. edge lg e = Some ll \<and> h1 a = edge_writes ll (h a)"
        by auto
      ultimately show ?thesis by auto
    qed }
qed

lemma label_addr_mem:
  "map_of al k = Some (Some a) \<Longrightarrow>
   a \<in> set (concat (map (\<lambda>(k, l). case l of Some a \<Rightarrow> [a] | None \<Rightarrow> []) al))"
  by (induction al) (auto split: if_splits)

lemma label_addr_inj:
  "distinct (concat (map (\<lambda>(k, l). case l of Some a \<Rightarrow> [a] | None \<Rightarrow> []) al)) \<Longrightarrow>
   map_of al k = Some (Some a) \<Longrightarrow> map_of al k' = Some (Some a) \<Longrightarrow> k = k'"
proof (induction al)
  case Nil
  then show ?case by simp
next
  case (Cons x al)
  obtain k0 l0 where x: "x = (k0, l0)" by (cases x)
  show ?case
  proof (cases "k = k0"; cases "k' = k0")
    assume "k = k0" "k' = k0" then show ?thesis by simp
  next
    assume a: "k = k0" "k' \<noteq> k0"
    then have "l0 = Some a" "map_of al k' = Some (Some a)" using Cons.prems x by auto
    then show ?thesis using label_addr_mem[of al k' a] Cons.prems(1) x by auto
  next
    assume a: "k \<noteq> k0" "k' = k0"
    then have "l0 = Some a" "map_of al k = Some (Some a)" using Cons.prems x by auto
    then show ?thesis using label_addr_mem[of al k a] Cons.prems(1) x by auto
  next
    assume a: "k \<noteq> k0" "k' \<noteq> k0"
    then show ?thesis using Cons x by auto
  qed
qed

lemma updateInputGraph_frame:
  assumes run: "updateInputGraph ig lg h = Inr h'"
    and dist: "distinct (label_addrs ig)"
  shows "(\<forall>v a. node ig v = Some (Some a) \<longrightarrow>
            (\<exists>ll. node lg v = Some ll
                \<and> h' a = node_writes ll (children lg v \<noteq> []) (h a)))
       \<and> (\<forall>e a. edge ig e = Some (Some a) \<longrightarrow>
            (\<exists>ll. edge lg e = Some ll \<and> h' a = edge_writes ll (h a)))
       \<and> (\<exists>a. g_label ig = Some a \<and> h' a = graph_writes (g_label lg) (h a))
       \<and> (\<forall>a. a \<notin> set (label_addrs ig) \<longrightarrow> h' a = h a)"
proof -
  from run obtain h1 h2 ga where
    n: "forEach (update_node ig lg) (nodes ig) h = Inr h1" and
    e: "forEach (update_edge ig lg) (edges ig) h1 = Inr h2" and
    ga: "g_label ig = Some ga" and
    h'0: "h' = h2(ga := (h2 ga)(''width'' \<mapsto> get (g_label lg) ''width'',
                               ''height'' \<mapsto> get (g_label lg) ''height''))"
    by (auto simp: updateInputGraph_def Let_def split: sum.splits option.splits)
  have "(h2 ga)(''width'' \<mapsto> get (g_label lg) ''width'',
                ''height'' \<mapsto> get (g_label lg) ''height'')
        = graph_writes (g_label lg) (h2 ga)"
    by (auto simp: graph_writes_def fun_eq_iff)
  with h'0 have h': "h' = h2(ga := graph_writes (g_label lg) (h2 ga))" by simp
  have dn: "distinct (node_label_addrs ig)" and de: "distinct (edge_label_addrs ig)"
    and ne: "set (node_label_addrs ig) \<inter> set (edge_label_addrs ig) = {}"
    and gn: "ga \<notin> set (node_label_addrs ig)" and ge: "ga \<notin> set (edge_label_addrs ig)"
    using dist ga by (auto simp: label_addrs_def)
  have ninj: "\<forall>v v' a. node ig v = Some (Some a) \<longrightarrow> node ig v' = Some (Some a) \<longrightarrow> v = v'"
    using label_addr_inj[OF dn[unfolded node_label_addrs_def]] by (auto simp: node_def)
  have einj: "\<forall>e e' a. edge ig e = Some (Some a) \<longrightarrow> edge ig e' = Some (Some a) \<longrightarrow> e = e'"
    using label_addr_inj[OF de[unfolded edge_label_addrs_def]] by (auto simp: edge_def)
  have nmem: "\<And>v a. node ig v = Some (Some a) \<Longrightarrow> a \<in> set (node_label_addrs ig)"
    using label_addr_mem by (fastforce simp: node_def node_label_addrs_def)
  have emem: "\<And>e a. edge ig e = Some (Some a) \<Longrightarrow> a \<in> set (edge_label_addrs ig)"
    using label_addr_mem by (fastforce simp: edge_def edge_label_addrs_def)
  have nodes_ok: "\<exists>ll. node lg v = Some ll \<and> h' a = node_writes ll (children lg v \<noteq> []) (h a)"
    if va: "node ig v = Some (Some a)" for v a
  proof -
    have "v \<in> set (nodes ig)"
      using va by (auto simp: node_def nodes_def dest: map_of_SomeD intro: rev_image_eqI)
    from node_loop_effect(2)[OF ninj n this va] obtain ll where
      ll: "node lg v = Some ll" "h1 a = node_writes ll (children lg v \<noteq> []) (h a)" by blast
    have "a \<notin> set (edge_label_addrs ig)" using nmem[OF va] ne by auto
    then have "\<forall>e\<in>set (edges ig). edge ig e \<noteq> Some (Some a)" using emem by blast
    from edge_loop_effect(1)[OF einj e this] have "h2 a = h1 a" .
    moreover have "a \<noteq> ga" using nmem[OF va] gn by auto
    ultimately show ?thesis using ll h' by simp
  qed
  have edges_ok: "\<exists>ll. edge lg x = Some ll \<and> h' a = edge_writes ll (h a)"
    if xa: "edge ig x = Some (Some a)" for x a
  proof -
    have "x \<in> set (edges ig)"
      using xa by (auto simp: edge_def edges_def dest: map_of_SomeD intro: rev_image_eqI)
    have "a \<notin> set (node_label_addrs ig)" using emem[OF xa] ne by auto
    then have "\<forall>v\<in>set (nodes ig). node ig v \<noteq> Some (Some a)" using nmem by blast
    from node_loop_effect(1)[OF ninj n this] have "h1 a = h a" .
    moreover from edge_loop_effect(2)[OF einj e \<open>x \<in> set (edges ig)\<close> xa] obtain ll where
      ll: "edge lg x = Some ll" "h2 a = edge_writes ll (h1 a)" by blast
    moreover have "a \<noteq> ga" using emem[OF xa] ge by auto
    ultimately show ?thesis using h' by simp
  qed
  have glabel_ok: "h' ga = graph_writes (g_label lg) (h ga)"
  proof -
    have "\<forall>v\<in>set (nodes ig). node ig v \<noteq> Some (Some ga)" using nmem gn by blast
    from node_loop_effect(1)[OF ninj n this] have "h1 ga = h ga" .
    moreover have "\<forall>e\<in>set (edges ig). edge ig e \<noteq> Some (Some ga)" using emem ge by blast
    from edge_loop_effect(1)[OF einj e this] have "h2 ga = h1 ga" .
    ultimately show ?thesis using h' by simp
  qed
  have others: "h' a = h a" if "a \<notin> set (label_addrs ig)" for a
  proof -
    from that have an: "a \<notin> set (node_label_addrs ig)" and ae: "a \<notin> set (edge_label_addrs ig)"
      and ag: "a \<noteq> ga" using ga by (auto simp: label_addrs_def)
    have "\<forall>v\<in>set (nodes ig). node ig v \<noteq> Some (Some a)" using nmem an by blast
    from node_loop_effect(1)[OF ninj n this] have "h1 a = h a" .
    moreover have "\<forall>e\<in>set (edges ig). edge ig e \<noteq> Some (Some a)" using emem ae by blast
    from edge_loop_effect(1)[OF einj e this] have "h2 a = h1 a" .
    ultimately show ?thesis using h' ag by simp
  qed
  show ?thesis using nodes_ok edges_ok glabel_ok others ga by blast
qed

lemma forEach_invariant:
  assumes "forEach f xs s = Inr s'" and "I s"
    and "\<And>x t t'. x \<in> set xs \<Longrightarrow> I t \<Longrightarrow> f x t = Inr t' \<Longrightarrow> I t'"
  shows "I s'"
  using assms
proof (induction xs arbitrary: s)
  case Nil
  then show ?case by simp
next
  case (Cons x xs)
  from forEach_Cons_Inr[OF Cons.prems(1)] obtain s1 where
    s1: "f x s = Inr s1" "forEach f xs s1 = Inr s'" by blast
  have s1I: "I s1" using Cons.prems(3)[OF _ Cons.prems(2) s1(1)] by simp
  have step: "I t'" if "y \<in> set xs" "I t" "f y t = Inr t'" for y t t'
    using Cons.prems(3)[of y t t'] that by simp
  show ?case by (rule Cons.IH[OF s1(2) s1I step])
qed

lemma updateInputGraph_other_attributes:
  assumes run: "updateInputGraph ig lg h = Inr h'"
  shows "\<forall>a k. k \<notin> written_attrs \<or> a \<notin> set (label_addrs ig) \<longrightarrow> h' a k = h a k"
proof -
  let ?I = "\<lambda>t. \<forall>a k. k \<notin> written_attrs \<or> a \<notin> set (label_addrs ig) \<longrightarrow> t a k = h a k"
  from run obtain h1 h2 ga where
    n: "forEach (update_node ig lg) (nodes ig) h = Inr h1" and
    e: "forEach (update_edge ig lg) (edges ig) h1 = Inr h2" and
    ga: "g_label ig = Some ga" and
    h': "h' = h2(ga := (h2 ga)(''width'' \<mapsto> get (g_label lg) ''width'',
                               ''height'' \<mapsto> get (g_label lg) ''height''))"
    by (auto simp: updateInputGraph_def Let_def split: sum.splits option.splits)
  have nstep: "?I t'" if "?I t" "update_node ig lg v t = Inr t'" for v t t'
  proof -
    from update_node_effect[OF that(2)] show ?thesis
    proof
      assume "\<exists>a ll. node ig v = Some (Some a) \<and> node lg v = Some ll \<and>
          t' = t(a := node_writes ll (children lg v \<noteq> []) (t a))"
      then obtain a ll where a: "node ig v = Some (Some a)"
        and t': "t' = t(a := node_writes ll (children lg v \<noteq> []) (t a))" by blast
      have "a \<in> set (label_addrs ig)"
        using label_addr_mem[of "g_nodes ig" v a] a
        by (simp add: node_def label_addrs_def node_label_addrs_def)
      then show ?thesis using that(1) t'
        by (auto simp: node_writes_def written_attrs_def)
    next
      assume "(node ig v = None \<or> node ig v = Some None) \<and> t' = t"
      then show ?thesis using that(1) by simp
    qed
  qed
  have estep: "?I t'" if "?I t" "update_edge ig lg x t = Inr t'" for x t t'
  proof -
    from update_edge_effect[OF that(2)] obtain a ll where a: "edge ig x = Some (Some a)"
      and t': "t' = t(a := edge_writes ll (t a))" by blast
    have "a \<in> set (label_addrs ig)"
      using label_addr_mem[of "g_edges ig" x a] a
      by (simp add: edge_def label_addrs_def edge_label_addrs_def)
    then show ?thesis using that(1) t'
      by (auto simp: edge_writes_def written_attrs_def)
  qed
  have "?I h" by simp
  from forEach_invariant[where I = ?I, OF n this] nstep have "?I h1" by blast
  from forEach_invariant[where I = ?I, OF e this] estep have "?I h2" by blast
  moreover have "ga \<in> set (label_addrs ig)" using ga by (simp add: label_addrs_def)
  ultimately show ?thesis unfolding h' by (auto simp: written_attrs_def)
qed

text \<open>
  Claim C7. When \<^verbatim>\<open>updateInputGraph\<close> returns, the store differs from the one it started
  with only in the properties \<open>x\<close>, \<open>y\<close>, \<open>width\<close>, \<open>height\<close> and \<open>points\<close> of label objects of
  the input graph. When the labels of the input graph are distinct objects, every node
  label has received \<open>x\<close> and \<open>y\<close> of the layout label of its node, and \<open>width\<close> and
  \<open>height\<close> exactly when the node has children in the layout graph; every edge label
  has received \<open>points\<close>, and \<open>x\<close> and \<open>y\<close> exactly when the layout label has an \<open>x\<close>; the
  graph label has received \<open>width\<close> and \<open>height\<close>; and every other property of these
  objects is unchanged (\<^const>\<open>node_writes\<close>, \<^const>\<open>edge_writes\<close>, \<^const>\<open>graph_writes\<close>). The
  nodes, edges and parent relation of the input graph are not written at all.
\<close>

theorem updateInputGraph_writes:
  assumes run: "updateInputGraph ig lg h = Inr h'"
  shows "(\<forall>a k. k \<notin> written_attrs \<or> a \<notin> set (label_addrs ig) \<longrightarrow> h' a k = h a k)
       \<and> (distinct (label_addrs ig) \<longrightarrow>
            (\<forall>v a. node ig v = Some (Some a) \<longrightarrow>
               (\<exists>ll. node lg v = Some ll
                   \<and> h' a = node_writes ll (children lg v \<noteq> []) (h a)))
          \<and> (\<forall>e a. edge ig e = Some (Some a) \<longrightarrow>
               (\<exists>ll. edge lg e = Some ll \<and> h' a = edge_writes ll (h a)))
          \<and> (\<exists>a. g_label ig = Some a \<and> h' a = graph_writes (g_label lg) (h a)))"
  using updateInputGraph_other_attributes[OF run] updateInputGraph_frame[OF run]
  by blast

theorem updateInputGraph_writes_witness:
  "distinct (label_addrs input_example)
   \<and> (\<exists>h'. updateInputGraph input_example layout_example input_heap = Inr h'
         \<and> h' 1 ''x'' = Some (Num 50) \<and> h' 1 ''width'' = Some (Num 100)
         \<and> h' 1 ''color'' = Some (Str ''red'')
         \<and> h' 2 ''x'' = Some (Num 50) \<and> h' 2 ''width'' = Some (Num 10)
         \<and> h' 3 ''x'' = Some (Num 7) \<and> h' 3 ''weight'' = Some (Num 2)
         \<and> h' 0 ''width'' = Some (Num 200) \<and> h' 0 ''rankdir'' = Some (Str ''LR'')
         \<and> h' 4 = input_heap 4)"
proof -
  have d: "distinct (label_addrs input_example)"
    by (simp add: label_addrs_def node_label_addrs_def edge_label_addrs_def input_example_def)
  have "\<exists>h'. updateInputGraph input_example layout_example input_heap = Inr h'"
    by (simp add: updateInputGraph_def update_node_def update_edge_def nodes_def edges_def
        node_def edge_def children_def input_example_def layout_example_def Let_def)
  then obtain h' where run: "updateInputGraph input_example layout_example input_heap = Inr h'"
    by blast
  have n: "node input_example ''p'' = Some (Some 1)" "node input_example ''c'' = Some (Some 2)"
      "edge input_example (''c'', ''u'', None) = Some (Some 3)"
      "g_label input_example = Some 0"
    by (simp_all add: node_def edge_def input_example_def)
  have c: "children layout_example ''p'' \<noteq> []" "children layout_example ''c'' = []"
    by (simp_all add: children_def nodes_def layout_example_def)
  have l: "4 \<notin> set (label_addrs input_example)"
    by (simp add: label_addrs_def node_label_addrs_def edge_label_addrs_def input_example_def)
  from updateInputGraph_writes[OF run] d n c l
  have "h' 1 = node_writes (the (node layout_example ''p'')) True (input_heap 1)"
       "h' 2 = node_writes (the (node layout_example ''c'')) False (input_heap 2)"
       "h' 3 = edge_writes (the (edge layout_example (''c'', ''u'', None))) (input_heap 3)"
       "h' 0 = graph_writes (g_label layout_example) (input_heap 0)"
       "h' 4 = input_heap 4"
    by (fastforce simp: fun_eq_iff)+
  then show ?thesis using d run
    by (simp add: node_writes_def edge_writes_def graph_writes_def get_def node_def edge_def
        layout_example_def input_heap_def)
qed

section \<open>Properties of the linked list\<close>

text \<open>
  On a well-formed ring the list is a queue. \<^verbatim>\<open>dequeue\<close> returns \<^verbatim>\<open>undefined\<close> on the empty ring
  and otherwise removes and returns the oldest entry; \<^verbatim>\<open>enqueue\<close> of an object outside the
  ring that lacks at least one of its two links appends it; \<^verbatim>\<open>enqueue\<close> of an entry that is
  in the ring moves it to the end. So entries that were never linked before come out in
  the order they went in, followed by \<^verbatim>\<open>undefined\<close>.
\<close>

lemma chain_append:
  "chain L a (xs @ y # ys) b = (chain L a xs y \<and> chain L y ys b)"
  by (induction xs arbitrary: a) auto

lemma chain_frame:
  assumes "\<forall>r\<in>set (a # xs). prev_of L' r = prev_of L r"
    and "\<forall>r\<in>set (xs @ [b]). next_of L' r = next_of L r"
  shows "chain L' a xs b = chain L a xs b"
  using assms by (induction xs arbitrary: a) auto

lemma chain_last:
  "chain L a xs b \<Longrightarrow> next_of L b = Some (last (a # xs))"
  by (induction xs arbitrary: a) auto

lemma chain_first:
  "chain L a xs b \<Longrightarrow> prev_of L a = Some (hd (xs @ [b]))"
  by (cases xs) auto

lemma init_List_is_queue: "is_queue (init_List s L) s []"
  by (simp add: is_queue_def init_List_def Let_def)

lemma dequeue_empty:
  "is_queue L s [] \<Longrightarrow> dequeue s L = Inr (None, L)"
  by (simp add: is_queue_def dequeue_def)

lemma dequeue_nonempty:
  assumes "is_queue L s (x # xs)"
  shows "\<exists>L'. dequeue s L = Inr (Some x, L') \<and> is_queue L' s xs
              \<and> links.more L' = links.more L"
proof -
  from assms have d: "distinct (s # x # xs)" and c: "chain L x xs s"
    and px: "prev_of L s = Some x" and nx: "next_of L x = Some s"
    by (auto simp: is_queue_def)
  have xs_ne: "x \<noteq> s" using d by auto
  let ?p = "hd (xs @ [s])"
  have pp: "prev_of L x = Some ?p" using chain_first[OF c] .
  let ?L2 = "L\<lparr>next_of := (next_of L)(?p \<mapsto> s), prev_of := (prev_of L)(s \<mapsto> ?p)\<rparr>"
  have px1: "?p \<noteq> x" using d by (cases xs) auto
  have un: "unlink x L = Inr ?L2"
    using pp nx px1 by (simp add: unlink_def Let_def)
  have dq: "dequeue s L = Inr (Some x, ?L2)"
    using px xs_ne un by (simp add: dequeue_def Let_def)
  have "chain ?L2 s xs s"
  proof (cases xs)
    case Nil
    then show ?thesis using pp nx by simp
  next
    case (Cons y ys)
    then have p: "?p = y" by simp
    from c Cons have cy: "chain L y ys s" and py: "prev_of L x = Some y" by auto
    have "chain ?L2 y ys s = chain L y ys s"
    proof (rule chain_frame)
      show "\<forall>r\<in>set (y # ys). prev_of ?L2 r = prev_of L r"
        using d Cons by auto
      show "\<forall>r\<in>set (ys @ [s]). next_of ?L2 r = next_of L r"
        using d Cons p by auto
    qed
    then show ?thesis using cy Cons p py nx by simp
  qed
  then have "is_queue ?L2 s xs" using d by (simp add: is_queue_def)
  then show ?thesis using dq by (intro exI[of _ ?L2]) simp
qed

lemma enqueue_link_in:
  "enqueue s e L =
     (case (if prev_of L e \<noteq> None \<and> next_of L e \<noteq> None then unlink e L else Inr L) of
        Inl err \<Rightarrow> Inl err
      | Inr L \<Rightarrow> link_in s e L)"
  by (auto simp: enqueue_def link_in_def split: sum.splits)

lemma chain_retarget:
  assumes "chain L a xs b"
    and "\<forall>r\<in>set (a # xs). r \<noteq> last (a # xs) \<longrightarrow> prev_of L' r = prev_of L r"
    and "prev_of L' (last (a # xs)) = Some b'"
    and "\<forall>r\<in>set xs. next_of L' r = next_of L r"
    and "next_of L' b' = Some (last (a # xs))"
    and "distinct (a # xs)"
  shows "chain L' a xs b'"
  using assms
proof (induction xs arbitrary: a)
  case Nil
  then show ?case by simp
next
  case (Cons x xs)
  have "chain L' x xs b'"
  proof (rule Cons.IH)
    show "chain L x xs b" using Cons.prems(1) by simp
    show "\<forall>r\<in>set (x # xs). r \<noteq> last (x # xs) \<longrightarrow> prev_of L' r = prev_of L r"
      using Cons.prems(2) by simp
    show "prev_of L' (last (x # xs)) = Some b'" using Cons.prems(3) by simp
    show "\<forall>r\<in>set xs. next_of L' r = next_of L r" using Cons.prems(4) by simp
    show "next_of L' b' = Some (last (x # xs))" using Cons.prems(5) by simp
    show "distinct (x # xs)" using Cons.prems(6) by simp
  qed
  moreover have "a \<noteq> last (a # x # xs)" using Cons.prems(6) by auto
  then have "prev_of L' a = prev_of L a" using Cons.prems(2) by simp
  moreover have "next_of L' x = next_of L x" using Cons.prems(4) by simp
  ultimately show ?case using Cons.prems(1) by simp
qed

lemma link_in_tail:
  assumes q: "is_queue L s xs" and fresh: "e \<notin> set (s # xs)"
  shows "\<exists>L'. link_in s e L = Inr L' \<and> is_queue L' s (xs @ [e])
            \<and> links.more L' = links.more L
            \<and> (\<forall>r. r \<notin> {e, s, last (s # xs)} \<longrightarrow>
                  prev_of L' r = prev_of L r \<and> next_of L' r = next_of L r)"
proof -
  from q have d: "distinct (s # xs)" and c: "chain L s xs s" by (auto simp: is_queue_def)
  let ?n = "last (s # xs)"
  have ns: "next_of L s = Some ?n" using chain_last[OF c] .
  have "?n \<in> set (s # xs)" by (rule last_in_set) simp
  then have es: "e \<noteq> s" "e \<noteq> ?n" using fresh by (auto simp del: last.simps)
  let ?L' = "L\<lparr>next_of := (next_of L)(e \<mapsto> ?n, s \<mapsto> e),
               prev_of := (prev_of L)(?n \<mapsto> e, e \<mapsto> s)\<rparr>"
  have li: "link_in s e L = Inr ?L'"
    using ns es by (simp add: link_in_def Let_def del: last.simps)
  have "chain ?L' s xs e"
  proof (rule chain_retarget[OF c])
    show "\<forall>r\<in>set (s # xs). r \<noteq> ?n \<longrightarrow> prev_of ?L' r = prev_of L r"
      using fresh by (auto simp del: last.simps)
    show "prev_of ?L' ?n = Some e" using es by (simp del: last.simps)
    show "\<forall>r\<in>set xs. next_of ?L' r = next_of L r" using fresh d by auto
    show "next_of ?L' e = Some ?n" using es by (simp del: last.simps)
    show "distinct (s # xs)" by (rule d)
  qed
  moreover have "chain ?L' e [] s" using es by (simp del: last.simps)
  ultimately have "chain ?L' s (xs @ [e]) s" by (simp add: chain_append)
  moreover have "distinct (s # xs @ [e])" using d fresh by auto
  ultimately have "is_queue ?L' s (xs @ [e])" by (simp add: is_queue_def)
  then show ?thesis using li by (intro exI[of _ ?L']) (simp del: last.simps)
qed

lemma enqueue_fresh:
  assumes q: "is_queue L s xs" and fresh: "e \<notin> set (s # xs)"
    and nolink: "prev_of L e = None \<or> next_of L e = None"
  shows "\<exists>L'. enqueue s e L = Inr L' \<and> is_queue L' s (xs @ [e])
            \<and> links.more L' = links.more L
            \<and> (\<forall>r. r \<notin> {e, s, last (s # xs)} \<longrightarrow>
                  prev_of L' r = prev_of L r \<and> next_of L' r = next_of L r)"
  using link_in_tail[OF q fresh] nolink by (auto simp: enqueue_link_in simp del: last.simps)

lemma unlink_member:
  assumes q: "is_queue L s xs" and mem: "e \<in> set xs"
  shows "\<exists>L'. unlink e L = Inr L' \<and> is_queue L' s (remove1 e xs)
            \<and> links.more L' = links.more L"
proof -
  from q have d: "distinct (s # xs)" and c: "chain L s xs s" by (auto simp: is_queue_def)
  from mem obtain ys zs where xs: "xs = ys @ e # zs" by (meson split_list)
  have eys: "e \<notin> set ys" and ezs: "e \<notin> set zs" and es: "e \<noteq> s"
    and yz: "set ys \<inter> set zs = {}" and sy: "s \<notin> set ys" and sz: "s \<notin> set zs"
    and dy: "distinct (s # ys)" and dz: "distinct zs"
    using d xs by auto
  from c xs have c1: "chain L s ys e" and c2: "chain L e zs s" by (simp_all add: chain_append)
  let ?p = "hd (zs @ [s])" and ?n = "last (s # ys)"
  have pe: "prev_of L e = Some ?p" using chain_first[OF c2] .
  have ne: "next_of L e = Some ?n" using chain_last[OF c1] .
  have pne: "?p \<noteq> e" using ezs es by (cases zs) auto
  have n_in: "?n \<in> set (s # ys)" by (rule last_in_set) simp
  have nne: "?n \<noteq> e" using n_in eys es by (auto simp del: last.simps)
  let ?L' = "L\<lparr>next_of := (next_of L)(?p \<mapsto> ?n), prev_of := (prev_of L)(?n \<mapsto> ?p)\<rparr>"
  have un: "unlink e L = Inr ?L'"
    using pe ne pne by (simp add: unlink_def Let_def del: last.simps)
  have p_notin_ys: "?p \<notin> set ys" using yz sy by (cases zs) auto
  have n_notin_zs: "?n \<notin> set zs" using n_in yz sz by auto
  have c1': "chain ?L' s ys ?p"
  proof (rule chain_retarget[OF c1])
    show "\<forall>r\<in>set (s # ys). r \<noteq> ?n \<longrightarrow> prev_of ?L' r = prev_of L r"
      by (simp del: last.simps)
    show "prev_of ?L' ?n = Some ?p" by (simp del: last.simps)
    show "\<forall>r\<in>set ys. next_of ?L' r = next_of L r" using p_notin_ys by auto
    show "next_of ?L' ?p = Some ?n" by (simp del: last.simps)
    show "distinct (s # ys)" by (rule dy)
  qed
  have "chain ?L' s (ys @ zs) s"
  proof (cases zs)
    case Nil
    then show ?thesis using c1' by simp
  next
    case (Cons z zs')
    then have p: "?p = z" by simp
    from c2 Cons have cz: "chain L z zs' s" by simp
    have "chain ?L' z zs' s = chain L z zs' s"
    proof (rule chain_frame)
      show "\<forall>r\<in>set (z # zs'). prev_of ?L' r = prev_of L r"
        using n_notin_zs Cons by (auto simp del: last.simps)
      show "\<forall>r\<in>set (zs' @ [s]). next_of ?L' r = next_of L r"
        using dz sz Cons p by (auto simp del: last.simps)
    qed
    then show ?thesis using c1' cz Cons p by (simp add: chain_append del: last.simps)
  qed
  moreover have "remove1 e xs = ys @ zs" using xs eys by (simp add: remove1_append)
  moreover have "distinct (s # ys @ zs)" using d xs by auto
  ultimately have "is_queue ?L' s (remove1 e xs)" by (simp add: is_queue_def)
  then show ?thesis using un by (intro exI[of _ ?L']) (simp del: last.simps)
qed

lemma enqueue_relocates:
  assumes q: "is_queue L s xs" and mem: "e \<in> set xs"
  shows "\<exists>L'. enqueue s e L = Inr L' \<and> is_queue L' s (remove1 e xs @ [e])
            \<and> links.more L' = links.more L"
proof -
  from q have d: "distinct (s # xs)" and c: "chain L s xs s" by (auto simp: is_queue_def)
  from mem obtain ys zs where xs: "xs = ys @ e # zs" by (meson split_list)
  from c xs have c1: "chain L s ys e" and c2: "chain L e zs s" by (simp_all add: chain_append)
  have linked: "prev_of L e \<noteq> None \<and> next_of L e \<noteq> None"
    using chain_first[OF c2] chain_last[OF c1] by simp
  from unlink_member[OF q mem] obtain L1 where
    u: "unlink e L = Inr L1" and q1: "is_queue L1 s (remove1 e xs)"
    and m1: "links.more L1 = links.more L" by blast
  have "e \<notin> set (s # remove1 e xs)" using d mem by auto
  from link_in_tail[OF q1 this] obtain L2 where
    "link_in s e L1 = Inr L2" "is_queue L2 s (remove1 e xs @ [e])"
    "links.more L2 = links.more L1" by blast
  then show ?thesis using u linked m1 by (auto simp: enqueue_link_in)
qed

lemma run_ops_enqueue_all:
  assumes "is_queue L s xs" and "distinct es" and "set es \<inter> set (s # xs) = {}"
    and "\<forall>e\<in>set es. prev_of L e = None \<or> next_of L e = None"
  shows "\<exists>L'. run_ops s (map Enqueue es @ ops) L = run_ops s ops L' \<and> is_queue L' s (xs @ es)"
  using assms
proof (induction es arbitrary: L xs)
  case Nil
  then show ?case by auto
next
  case (Cons e es)
  have fresh: "e \<notin> set (s # xs)" using Cons.prems(3) by auto
  have nolink: "prev_of L e = None \<or> next_of L e = None" using Cons.prems(4) by simp
  from enqueue_fresh[OF Cons.prems(1) fresh nolink] obtain L1 where
    e1: "enqueue s e L = Inr L1" and q1: "is_queue L1 s (xs @ [e])"
    and fr: "\<forall>r. r \<notin> {e, s, last (s # xs)} \<longrightarrow>
                  prev_of L1 r = prev_of L r \<and> next_of L1 r = next_of L r"
    by blast
  have lin: "last (s # xs) \<in> set (s # xs)" by (rule last_in_set) simp
  have d: "distinct es" using Cons.prems(2) by simp
  have disj: "set es \<inter> set (s # xs @ [e]) = {}" using Cons.prems(2,3) by auto
  have "\<forall>e'\<in>set es. prev_of L1 e' = None \<or> next_of L1 e' = None"
  proof
    fix e' assume m: "e' \<in> set es"
    then have "e' \<notin> {e, s, last (s # xs)}"
      using Cons.prems(2,3) lin by (auto simp del: last.simps)
    then have "prev_of L1 e' = prev_of L e' \<and> next_of L1 e' = next_of L e'"
      using fr by blast
    then show "prev_of L1 e' = None \<or> next_of L1 e' = None"
      using Cons.prems(4) m by simp
  qed
  from Cons.IH[OF q1 d disj this] obtain L' where
    "run_ops s (map Enqueue es @ ops) L1 = run_ops s ops L'" "is_queue L' s ((xs @ [e]) @ es)"
    by blast
  then show ?case using e1 by auto
qed

lemma run_ops_dequeue_all:
  assumes "is_queue L s xs"
  shows "\<exists>L'. run_ops s (replicate (length xs) Dequeue @ ops) L =
               (case run_ops s ops L' of
                  Inl err \<Rightarrow> Inl err
                | Inr (rs, L'') \<Rightarrow> Inr (map Some xs @ rs, L''))
             \<and> is_queue L' s []"
  using assms
proof (induction xs arbitrary: L)
  case Nil
  then show ?case by (intro exI[of _ L]) (auto split: sum.splits)
next
  case (Cons x xs)
  from dequeue_nonempty[OF Cons.prems] obtain L1 where
    d1: "dequeue s L = Inr (Some x, L1)" and q1: "is_queue L1 s xs" by blast
  from Cons.IH[OF q1] obtain L' where
    r: "run_ops s (replicate (length xs) Dequeue @ ops) L1 =
               (case run_ops s ops L' of
                  Inl err \<Rightarrow> Inl err
                | Inr (rs, L'') \<Rightarrow> Inr (map Some xs @ rs, L''))"
    and q': "is_queue L' s []" by blast
  show ?case using d1 r q' by (intro exI[of _ L']) (auto split: sum.splits)
qed

lemma List_fifo:
  assumes "distinct (s # es)"
    and "\<forall>e\<in>set es. prev_of L e = None \<or> next_of L e = None"
  shows "\<exists>L'. run_ops s (map Enqueue es @ replicate (length es) Dequeue @ [Dequeue])
                 (init_List s L) = Inr (map Some es @ [None], L')"
proof -
  have q0: "is_queue (init_List s L) s []" by (rule init_List_is_queue)
  have fresh: "\<forall>e\<in>set es. prev_of (init_List s L) e = None \<or> next_of (init_List s L) e = None"
    using assms by (auto simp: init_List_def Let_def)
  have "distinct es" "set es \<inter> set (s # []) = {}" using assms(1) by auto
  from run_ops_enqueue_all[OF q0 this fresh] obtain L1 where
    r1: "run_ops s (map Enqueue es @ replicate (length es) Dequeue @ [Dequeue]) (init_List s L)
           = run_ops s (replicate (length es) Dequeue @ [Dequeue]) L1"
    and q1: "is_queue L1 s es" by auto
  from run_ops_dequeue_all[OF q1] obtain L2 where
    r2: "run_ops s (replicate (length es) Dequeue @ [Dequeue]) L1 =
               (case run_ops s [Dequeue] L2 of
                  Inl err \<Rightarrow> Inl err
                | Inr (rs, L'') \<Rightarrow> Inr (map Some es @ rs, L''))"
    and q2: "is_queue L2 s []" by blast
  have "run_ops s [Dequeue] L2 = Inr ([None], L2)"
    using dequeue_empty[OF q2] by simp
  then show ?thesis using r1 r2 by simp
qed

lemma List_fifo_example:
  "\<exists>L'. run_ops 0 [Enqueue 1, Enqueue 2, Enqueue 3, Dequeue, Dequeue, Dequeue, Dequeue]
          (init_List 0 no_links) = Inr ([Some 1, Some 2, Some 3, None], L')"
  using List_fifo[of 0 "[1, 2, 3]" no_links] by (simp add: no_links_def)

text \<open>
  Claim C10, at the failing input. Into an empty list the fresh entries 1, 2, 3 are
  enqueued; two \<^verbatim>\<open>dequeue\<close> calls return 1 and 2; then entry 1 is enqueued again. The
  list now holds 3 and 1, and a queue would return 3, 1 and then nothing. The code
  returns 2, which is not in the list, then 3, then 1: \<^verbatim>\<open>unlink\<close> left entry 1 its links
  when it was dequeued, \<^verbatim>\<open>enqueue\<close> therefore unlinks it again, and that writes the old
  neighbour 2 back into \<^verbatim>\<open>sentinel._prev\<close>.
\<close>

theorem reenqueue_after_dequeue_corrupts:
  "map_sum id fst
     (run_ops 0 [Enqueue 1, Enqueue 2, Enqueue 3, Dequeue, Dequeue, Enqueue 1,
                 Dequeue, Dequeue, Dequeue, Dequeue] (init_List 0 no_links))
   = Inr [Some 1, Some 2, Some 2, Some 3, Some 1, None]"
  by (simp add: init_List_def no_links_def enqueue_def dequeue_def unlink_def Let_def)

section \<open>Properties of the feedback arc set code\<close>

lemma unlink_data:
  fixes S :: store
  assumes "unlink e S = Inr S'"
  shows "v_of S' = v_of S" "in_of S' = in_of S" "out_of S' = out_of S" "fresh S' = fresh S"
  using assms by (auto simp: unlink_def Let_def split: option.splits)

lemma enqueue_data:
  fixes S :: store
  assumes "enqueue b e S = Inr S'"
  shows "v_of S' = v_of S" "in_of S' = in_of S" "out_of S' = out_of S" "fresh S' = fresh S"
  using assms unlink_data[of e S]
  by (auto simp: enqueue_def Let_def split: option.splits sum.splits if_splits)

lemma dequeue_data:
  fixes S :: store
  assumes "dequeue b S = Inr (r, S')"
  shows "v_of S' = v_of S" "in_of S' = in_of S" "out_of S' = out_of S" "fresh S' = fresh S"
  using assms unlink_data
  by (auto simp: dequeue_def Let_def split: option.splits sum.splits if_splits)

lemma assignBucket_data:
  assumes "assignBucket buckets zeroIdx e S = Inr S'"
  shows "v_of S' = v_of S" "in_of S' = in_of S" "out_of S' = out_of S" "fresh S' = fresh S"
  using assms enqueue_data
  by (auto simp: assignBucket_def Let_def split: option.splits)

lemma removeNode_no_v:
  assumes "v_of S entry = None"
  shows "removeNode g buckets zeroIdx entry c S = Inr ([], g, S)"
  using assms by (simp add: removeNode_def inEdges_def outEdges_def iterated_def removeNode_graph_def)

lemma drain_no_v:
  assumes run: "drain bucket buckets zeroIdx gS = Some y"
    and nov: "v_of (snd gS) = (\<lambda>_. None)"
  shows "\<forall>g' S'. y = Inr (g', S') \<longrightarrow> g' = fst gS \<and> v_of S' = (\<lambda>_. None)"
proof -
  have "v_of (snd gS) = (\<lambda>_. None) \<longrightarrow>
        (\<forall>g' S'. y = Inr (g', S') \<longrightarrow> g' = fst gS \<and> v_of S' = (\<lambda>_. None))"
  proof (rule drain.raw_induct[where P = "\<lambda>bucket buckets zeroIdx gS y.
            v_of (snd gS) = (\<lambda>_. None) \<longrightarrow>
            (\<forall>g' S'. y = Inr (g', S') \<longrightarrow> g' = fst gS \<and> v_of S' = (\<lambda>_. None))"], goal_cases)
    case (1 drain' bucket buckets zeroIdx gS y)
    note IH = "1"(1) and body = "1"(2)
    show ?case
    proof
      assume v: "v_of (snd gS) = (\<lambda>_. None)"
      show "\<forall>g' S'. y = Inr (g', S') \<longrightarrow> g' = fst gS \<and> v_of S' = (\<lambda>_. None)"
      proof (cases "dequeue bucket (snd gS)")
        case (Inl err)
        then show ?thesis using body by auto
      next
        case (Inr p)
        obtain r S1 where p: "p = (r, S1)" by (cases p)
        have v1: "v_of S1 = (\<lambda>_. None)"
          using dequeue_data(1)[of bucket "snd gS" r S1] Inr p v by simp
        show ?thesis
        proof (cases r)
          case None
          then show ?thesis using body Inr p v1 by auto
        next
          case (Some entry)
          have rn: "removeNode (fst gS) buckets zeroIdx entry False S1 = Inr ([], fst gS, S1)"
            by (rule removeNode_no_v) (simp add: v1)
          have "drain' bucket buckets zeroIdx (fst gS, S1) = Some y"
            using body Inr p Some rn by simp
          from IH[OF this] v1 show ?thesis by simp
        qed
      qed
    qed
  qed (rule run)
  with nov show ?thesis by simp
qed

lemma pick_interior_no_v:
  assumes "pick_interior i buckets zeroIdx g S = Inr (rs, g', S')" and "v_of S = (\<lambda>_. None)"
  shows "g' = g \<and> v_of S' = (\<lambda>_. None)"
  using assms
proof (induction i arbitrary: S)
  case 0
  then show ?case by simp
next
  case (Suc i)
  show ?case
  proof (cases "dequeue (buckets ! Suc i) S")
    case (Inl err)
    then show ?thesis using Suc.prems(1) by simp
  next
    case (Inr p)
    obtain r S1 where p: "p = (r, S1)" by (cases p)
    have v1: "v_of S1 = (\<lambda>_. None)"
      using dequeue_data(1)[of "buckets ! Suc i" S r S1] Inr p Suc.prems(2) by simp
    show ?thesis
    proof (cases r)
      case None
      then show ?thesis using Suc.IH[OF _ v1] Suc.prems(1) Inr p by simp
    next
      case (Some entry)
      have rn: "removeNode g buckets zeroIdx entry True S1 = Inr ([], g, S1)"
        by (rule removeNode_no_v) (simp add: v1)
      then show ?thesis using Suc.prems(1) Inr p Some v1 by simp
    qed
  qed
qed

lemma doGreedyFAS_loop_no_v:
  assumes run: "doGreedyFAS_loop buckets zeroIdx st = Some y"
    and nov: "v_of (snd (snd st)) = (\<lambda>_. None)"
  shows "\<forall>r. y = Inr r \<longrightarrow> nodeCount (fst (snd st)) = 0"
proof -
  have "v_of (snd (snd st)) = (\<lambda>_. None) \<longrightarrow> (\<forall>r. y = Inr r \<longrightarrow> nodeCount (fst (snd st)) = 0)"
  proof (rule doGreedyFAS_loop.raw_induct[where P = "\<lambda>buckets zeroIdx st y.
            v_of (snd (snd st)) = (\<lambda>_. None) \<longrightarrow>
            (\<forall>r. y = Inr r \<longrightarrow> nodeCount (fst (snd st)) = 0)"], goal_cases)
    case (1 loop' buckets zeroIdx st y)
    note IH = "1"(1) and body = "1"(2)
    obtain results g S where st: "st = (results, g, S)" by (cases st) auto
    show ?case
    proof (rule impI, rule allI, rule impI)
      fix r
      assume v0: "v_of (snd (snd st)) = (\<lambda>_. None)" and y: "y = Inr r"
      have v: "v_of S = (\<lambda>_. None)" using v0 st by simp
      show "nodeCount (fst (snd st)) = 0"
      proof (rule ccontr)
        assume "nodeCount (fst (snd st)) \<noteq> 0"
        then have nz: "nodeCount g \<noteq> 0" using st by simp
        from body nz st y obtain sinks sources where
          bk: "bucket_at buckets 0 = Some sinks"
              "bucket_at buckets (int (length buckets) - 1) = Some sources"
          by (auto split: option.splits)
        from body nz st y bk obtain gS1 where
          d1: "drain sinks buckets zeroIdx (g, S) = Some (Inr gS1)"
          by (auto split: option.splits sum.splits)
        from drain_no_v[OF d1] v have gS1: "fst gS1 = g" "v_of (snd gS1) = (\<lambda>_. None)"
          by (cases gS1; simp)+
        from body nz st y bk d1 obtain g2 S2 where
          d2: "drain sources buckets zeroIdx gS1 = Some (Inr (g2, S2))"
          by (auto split: option.splits sum.splits)
        from drain_no_v[OF d2 gS1(2)] gS1(1) have g2: "g2 = g" "v_of S2 = (\<lambda>_. None)"
          by simp_all
        from body nz st y bk d1 d2 g2(1) obtain rs g3 S3 where
          pk: "pick_interior (length buckets - 2) buckets zeroIdx g S2 = Inr (rs, g3, S3)" and
          rec: "loop' buckets zeroIdx (results @ rs, g3, S3) = Some (Inr r)"
          by (auto split: sum.splits)
        from pick_interior_no_v[OF pk g2(2)] have g3: "g3 = g" "v_of S3 = (\<lambda>_. None)"
          by simp_all
        from IH[OF rec] g3 have "nodeCount g = 0" by simp
        with nz show False by simp
      qed
    qed
  qed (rule run)
  with nov show ?thesis by simp
qed

lemma length_alist_update: "length al \<le> length (AList.update k v al)"
  by (induction al) auto

lemma nodeCount_setNode: "nodeCount g \<le> nodeCount (setNode v l g)" "0 < nodeCount (setNode v l g)"
  using length_alist_update[of "g_nodes g" v l] by (auto simp: nodeCount_def setNode_def)

lemma nodeCount_setEdge: "nodeCount g \<le> nodeCount (setEdge dflt v w l g)"
proof -
  have "nodeCount g \<le> nodeCount (ensureNode dflt u g)" for u and g :: "('a, 'b, 'c) graph"
    using nodeCount_setNode(1)[of g u dflt] by (simp add: ensureNode_def)
  then have "nodeCount g \<le> nodeCount (ensureNode dflt w (ensureNode dflt v g))"
    using le_trans by blast
  then show ?thesis by (auto simp: setEdge_def Let_def nodeCount_def)
qed

lemma new_Lists_data:
  "new_Lists n S = (bs, S') \<Longrightarrow> v_of S' = v_of S"
proof (induction n arbitrary: S bs S')
  case 0
  then show ?case by simp
next
  case (Suc n)
  obtain b S1 where b: "new_List S = (b, S1)" by (cases "new_List S")
  obtain bs1 S2 where bs1: "new_Lists n S1 = (bs1, S2)" by (cases "new_Lists n S1")
  have "v_of S1 = v_of S" using b by (auto simp: new_List_def init_List_def Let_def)
  moreover have "v_of S2 = v_of S1" using Suc.IH[OF bs1] .
  moreover have "S' = S2" using Suc.prems b bs1 by simp
  ultimately show ?case by simp
qed

lemma node_loop_build:
  assumes "foldl (\<lambda>(fasGraph, S) nodeId.
                      let (entry, S) = new_entry S;
                          (v, fasGraph) = addNode new_id (Some entry) fasGraph
                      in (fasGraph, S)) (fg, S) ids = (fg', S')"
    and "v_of S = (\<lambda>_. None)"
  shows "v_of S' = (\<lambda>_. None) \<and> nodeCount fg \<le> nodeCount fg' \<and> (ids \<noteq> [] \<longrightarrow> 0 < nodeCount fg')"
  using assms
proof (induction ids arbitrary: fg S)
  case Nil
  then show ?case by simp
next
  case (Cons x xs)
  let ?S1 = "snd (new_entry S)" and ?r = "fst (new_entry S)"
  let ?fg1 = "snd (addNode new_id (Some ?r) fg)"
  have step: "foldl (\<lambda>(fasGraph, S) nodeId.
                      let (entry, S) = new_entry S;
                          (v, fasGraph) = addNode new_id (Some entry) fasGraph
                      in (fasGraph, S)) (?fg1, ?S1) xs = (fg', S')"
    using Cons.prems(1) by (simp add: case_prod_unfold Let_def)
  have v1: "v_of ?S1 = (\<lambda>_. None)"
    using Cons.prems(2) by (auto simp: new_entry_def Let_def)
  have n1: "nodeCount fg \<le> nodeCount ?fg1" "0 < nodeCount ?fg1"
    using nodeCount_setNode by (auto simp: addNode_def Let_def)
  from Cons.IH[OF step v1] n1 show ?case by auto
qed

lemma buildState_no_v:
  assumes "buildState new_id weightFn g = Inr (fasGraph, buckets, zeroIdx, S)"
  shows "v_of S = (\<lambda>_. None) \<and> (nodes g \<noteq> [] \<longrightarrow> 0 < nodeCount fasGraph)"
proof -
  obtain fg1 S1 where nl: "foldl (\<lambda>(fasGraph, S) nodeId.
                      let (entry, S) = new_entry S;
                          (v, fasGraph) = addNode new_id (Some entry) fasGraph
                      in (fasGraph, S)) (new_Graph () :: fas_graph, empty_store) (nodes g) = (fg1, S1)"
    by (meson surj_pair)
  have e0: "v_of empty_store = (\<lambda>_. None)" by (simp add: empty_store_def)
  from node_loop_build[OF nl e0] have
    v1: "v_of S1 = (\<lambda>_. None)" and n1: "nodes g \<noteq> [] \<longrightarrow> 0 < nodeCount fg1" by auto
  let ?estep = "(\<lambda>(v, w, name) (fasGraph, S, maxIn, maxOut).
                   let prevWeight = (case edge fasGraph (v, w, None) of Some x \<Rightarrow> x | None \<Rightarrow> 0);
                       wgt = weightFn (v, w, name);
                       edgeWeight = prevWeight + wgt;
                       fasGraph = setEdge None v w edgeWeight fasGraph
                   in case node_label fasGraph v of
                        None \<Rightarrow> Inl TypeError
                      | Some vEntry \<Rightarrow>
                          let S = S\<lparr>out_of := (out_of S)(vEntry := out_of S vEntry + wgt)\<rparr>;
                              maxOut = max maxOut (out_of S vEntry)
                          in (case node_label fasGraph w of
                                None \<Rightarrow> Inl TypeError
                              | Some wEntry \<Rightarrow>
                                  let S = S\<lparr>in_of := (in_of S)(wEntry := in_of S wEntry + wgt)\<rparr>;
                                      maxIn = max maxIn (in_of S wEntry)
                                  in Inr (fasGraph, S, maxIn, maxOut)))"
  from assms nl obtain fg2 S2 maxIn maxOut where
    el: "forEach ?estep (edges g) (fg1, S1, 0, 0) = Inr (fg2, S2, maxIn, maxOut)"
    by (auto simp: buildState_def Let_def split: sum.splits prod.splits)
  let ?I = "\<lambda>(fg, S, mi :: int, mo :: int). v_of S = (\<lambda>_. None) \<and> nodeCount fg1 \<le> nodeCount fg"
  have "?I (fg2, S2, maxIn, maxOut)"
  proof (rule forEach_invariant[where I = ?I, OF el])
    show "?I (fg1, S1, 0, 0)" using v1 by simp
  next
    fix x t t'
    assume "?I t" and st: "?estep x t = Inr t'"
    obtain v w name where x: "x = (v, w, name)" by (cases x) auto
    obtain fg S mi mo where t: "t = (fg, S, mi, mo)" by (cases t) auto
    obtain fg' S' mi' mo' where t': "t' = (fg', S', mi', mo')" by (cases t') auto
    from st x t t' have "v_of S' = v_of S \<and> fg' = setEdge None v w
        ((case edge fg (v, w, None) of Some x \<Rightarrow> x | None \<Rightarrow> 0) + weightFn (v, w, name)) fg"
      by (auto simp: Let_def split: option.splits)
    then show "?I t'" using \<open>?I t\<close> t t' nodeCount_setEdge[of fg None v w] le_trans
      by fastforce
  qed
  then have v2: "v_of S2 = (\<lambda>_. None)" and n2: "nodeCount fg1 \<le> nodeCount fg2" by auto
  obtain bs S3 where nb: "new_Lists (nat \<bar>maxOut + maxIn + 3\<bar>) S2 = (bs, S3)"
    by (cases "new_Lists (nat \<bar>maxOut + maxIn + 3\<bar>) S2")
  have v3: "v_of S3 = (\<lambda>_. None)" using new_Lists_data[OF nb] v2 by simp
  from assms nl el nb have
    al: "forEach (\<lambda>v S. case node_label fg2 v of
                                  None \<Rightarrow> Inl TypeError
                                | Some entry \<Rightarrow> assignBucket bs (maxIn + 1) entry S)
            (nodes fg2) S3 = Inr S" and fg: "fasGraph = fg2"
    by (auto simp: buildState_def Let_def split: sum.splits prod.splits)
  have "v_of S = (\<lambda>_. None)"
  proof (rule forEach_invariant[where I = "\<lambda>S. v_of S = (\<lambda>_. None)", OF al v3])
    fix x t t'
    assume "v_of t = (\<lambda>_. None)"
      and "(case node_label fg2 x of None \<Rightarrow> Inl TypeError
             | Some entry \<Rightarrow> assignBucket bs (maxIn + 1) entry t) = Inr t'"
    then show "v_of t' = (\<lambda>_. None)"
      using assignBucket_data(1) by (auto split: option.splits)
  qed
  then show ?thesis using n1 n2 fg by auto
qed

text \<open>
  Claim C1, at the failing inputs. The entries that \<^verbatim>\<open>buildState\<close> creates have no \<^verbatim>\<open>v\<close>, so
  \<^verbatim>\<open>removeNode\<close> never removes a node of the working graph, and \<^verbatim>\<open>while (g.nodeCount())\<close>
  cannot end: whatever ids \<^verbatim>\<open>addNode\<close> chooses and whatever the weights are, on a graph
  with more than one node \<^verbatim>\<open>greedyFAS\<close> returns no edge set at all. It raises or it does
  not return. The claim has it return a feedback arc set.
\<close>

theorem greedyFAS_never_returns:
  assumes "1 < nodeCount g"
  shows "greedyFAS new_id g weightFn \<noteq> Some (Inr fas)"
proof
  assume r: "greedyFAS new_id g weightFn = Some (Inr fas)"
  from r assms obtain fasGraph buckets zeroIdx S results where
    b: "buildState new_id weightFn g = Inr (fasGraph, buckets, zeroIdx, S)" and
    d: "doGreedyFAS fasGraph buckets zeroIdx S = Some (Inr results)"
    by (auto simp: greedyFAS_def split: sum.splits option.splits prod.splits)
  have "nodes g \<noteq> []" using assms by (auto simp: nodeCount_def nodes_def)
  with buildState_no_v[OF b] have v: "v_of S = (\<lambda>_. None)" and n: "0 < nodeCount fasGraph"
    by auto
  from doGreedyFAS_loop_no_v[OF d[unfolded doGreedyFAS_def]] v have "nodeCount fasGraph = 0"
    by simp
  with n show False by simp
qed

theorem greedyFAS_two_isolated_nodes:
  "\<forall>new_id weightFn fas. greedyFAS new_id two_isolated_nodes weightFn \<noteq> Some (Inr fas)"
  using greedyFAS_never_returns[of two_isolated_nodes]
  by (simp add: nodeCount_def two_isolated_nodes_def)

lemma stuck_loop:
  assumes nz: "nodeCount g \<noteq> 0"
    and b0: "bucket_at buckets 0 = Some sinks"
    and b1: "bucket_at buckets (int (length buckets) - 1) = Some sources"
    and d0: "dequeue sinks S = Inr (None, S)"
    and d1: "dequeue sources S = Inr (None, S)"
    and pk: "pick_interior (length buckets - 2) buckets zeroIdx g S = Inr ([], g, S)"
  shows "doGreedyFAS_loop buckets zeroIdx (results, g, S) = None"
proof (rule ccontr)
  assume "doGreedyFAS_loop buckets zeroIdx (results, g, S) \<noteq> None"
  then obtain y where run: "doGreedyFAS_loop buckets zeroIdx (results, g, S) = Some y" by auto
  have dr0: "drain sinks buckets zeroIdx (g, S) = Some (Inr (g, S))"
    by (subst drain.simps) (simp add: d0)
  have dr1: "drain sources buckets zeroIdx (g, S) = Some (Inr (g, S))"
    by (subst drain.simps) (simp add: d1)
  have "\<not> (buckets = buckets \<and> zeroIdx = zeroIdx \<and> (results, g, S) = (results, g, S))"
  proof (rule doGreedyFAS_loop.raw_induct[where P = "\<lambda>b z st y.
            \<not> (b = buckets \<and> z = zeroIdx \<and> st = (results, g, S))"], goal_cases)
    case (1 loop' b z st y)
    note IH = "1"(1) and body = "1"(2)
    show ?case
    proof
      assume eq: "b = buckets \<and> z = zeroIdx \<and> st = (results, g, S)"
      with body nz b0 b1 dr0 dr1 pk have "loop' buckets zeroIdx (results, g, S) = Some y"
        by simp
      from IH[OF this] show False by simp
    qed
  qed (rule run)
  then show False by simp
qed

lemmas build_simps = buildState_def nodes_def edges_def new_Graph_def
      new_entry_def addNode_def setNode_def empty_store_def Let_def new_List_def init_List_def
      node_label_def node_def assignBucket_def bucket_at_def enqueue_def numbered_id_def
      eval_nat_numeral

text \<open>
  On two nodes without an edge the run does not return: the two entries are taken
  from the bucket of sinks, no node is removed, and the outer loop repeats on a graph
  that still has two nodes.
\<close>

lemma greedyFAS_isolated_nodes_diverges:
  "greedyFAS numbered_id two_isolated_nodes weightFn = None"
  apply (simp add: greedyFAS_def nodeCount_def two_isolated_nodes_def build_simps doGreedyFAS_def)
  apply (subst doGreedyFAS_loop.simps)
  apply (simp add: drain.simps bucket_at_def dequeue_def unlink_def removeNode_no_v nodeCount_def
      Let_def)
  apply (subst stuck_loop)
       apply (simp_all add: bucket_at_def dequeue_def unlink_def removeNode_no_v nodeCount_def
      Let_def)
   apply simp_all
  done

text \<open>
  On two nodes joined by an edge \<^verbatim>\<open>buildState\<close> raises: the nodes were added under the
  ids \<^verbatim>\<open>addNode\<close> chose, the edge is set under the ids \<open>a\<close> and \<open>b\<close>, and \<^verbatim>\<open>fasGraph.node("a")\<close>
  is \<^verbatim>\<open>undefined\<close>.
\<close>

lemma greedyFAS_single_edge_raises:
  "greedyFAS numbered_id single_edge_graph weightFn = Some (Inl TypeError)"
  by (simp add: greedyFAS_def nodeCount_def single_edge_graph_def buildState_def nodes_def
      edges_def new_Graph_def new_entry_def addNode_def setNode_def empty_store_def Let_def
      node_label_def node_def numbered_id_def setEdge_def ensureNode_def hasNode_def edge_def)

text \<open>A graph with at most one node gets the empty list, without any of the above.\<close>

lemma greedyFAS_small:
  "nodeCount g \<le> 1 \<Longrightarrow> greedyFAS new_id g weightFn = Some (Inr [])"
  by (simp add: greedyFAS_def)

lemma collect_loop:
  assumes "forEach
                (\<lambda>(u, w, name) (results, S).
                   case edge g (u, w, name) of
                     None \<Rightarrow> Inl TypeError
                   | Some wgt \<Rightarrow>
                       (case node_label g u of
                          None \<Rightarrow> Inl TypeError
                        | Some uEntry \<Rightarrow>
                            let results = (if c
                                           then results @ [(u, w)]
                                           else results);
                                S = S\<lparr>out_of := (out_of S)(uEntry := out_of S uEntry - wgt)\<rparr>
                            in (case assignBucket buckets zeroIdx uEntry S of
                                  Inl err \<Rightarrow> Inl err
                                | Inr S \<Rightarrow> Inr (results, S))))
                es (rs, S) = Inr (rs', S')"
  shows "rs' = (if c then rs @ map (\<lambda>(u, w, name). (u, w)) es else rs) \<and> v_of S' = v_of S"
  using assms
proof (induction es arbitrary: rs S)
  case Nil
  then show ?case by simp
next
  case (Cons x es)
  obtain u w name where x: "x = (u, w, name)" by (cases x) auto
  from Cons.prems x obtain S1 where
    s: "forEach
                (\<lambda>(u, w, name) (results, S).
                   case edge g (u, w, name) of
                     None \<Rightarrow> Inl TypeError
                   | Some wgt \<Rightarrow>
                       (case node_label g u of
                          None \<Rightarrow> Inl TypeError
                        | Some uEntry \<Rightarrow>
                            let results = (if c
                                           then results @ [(u, w)]
                                           else results);
                                S = S\<lparr>out_of := (out_of S)(uEntry := out_of S uEntry - wgt)\<rparr>
                            in (case assignBucket buckets zeroIdx uEntry S of
                                  Inl err \<Rightarrow> Inl err
                                | Inr S \<Rightarrow> Inr (results, S))))
                es (if c then rs @ [(u, w)] else rs, S1) = Inr (rs', S')"
    and v: "v_of S1 = v_of S"
    using assignBucket_data(1)
    by (fastforce simp: Let_def split: option.splits sum.splits)
  from Cons.IH[OF s] v x show ?case by auto
qed

lemma out_loop_v:
  assumes "forEach
                     (\<lambda>(u, w, name) S.
                        case edge g (u, w, name) of
                          None \<Rightarrow> Inl TypeError
                        | Some wgt \<Rightarrow>
                            (case node_label g w of
                               None \<Rightarrow> Inl TypeError
                             | Some wEntry \<Rightarrow>
                                 let S = S\<lparr>in_of := (in_of S)(wEntry := in_of S wEntry - wgt)\<rparr>
                                 in assignBucket buckets zeroIdx wEntry S))
                     es S = Inr S'"
  shows "v_of S' = v_of S"
proof (rule forEach_invariant[where I = "\<lambda>T. v_of T = v_of S", OF assms])
  show "v_of S = v_of S" by simp
next
  fix x t t'
  assume "v_of t = v_of S"
    and "(case x of (u, w, name) \<Rightarrow> \<lambda>S.
                        case edge g (u, w, name) of
                          None \<Rightarrow> Inl TypeError
                        | Some wgt \<Rightarrow>
                            (case node_label g w of
                               None \<Rightarrow> Inl TypeError
                             | Some wEntry \<Rightarrow>
                                 let S = S\<lparr>in_of := (in_of S)(wEntry := in_of S wEntry - wgt)\<rparr>
                                 in assignBucket buckets zeroIdx wEntry S)) t = Inr t'"
  then show "v_of t' = v_of S"
    using assignBucket_data(1)
    by (fastforce simp: Let_def split: option.splits prod.splits)
qed

lemma outEdges_to_parallel:
  "hasNode g v \<Longrightarrow> outEdges_to g v w = Some (parallel_edges g v w)"
  by (auto simp: outEdges_to_def outEdges_def parallel_edges_def intro!: filter_cong)

text \<open>
  \<^verbatim>\<open>removeNode\<close> on its own, as a function of the entry it is given. When it is called with
  \<^verbatim>\<open>collectPredecessors = true\<close> and returns, the list it emits is one pair \<open>(v, w)\<close> for every
  edge of the working graph into the node \<^verbatim>\<open>entry.v\<close>, in their order, as the graph is when
  the call starts, and that node is removed from the graph; the expansion expression
  of \<^verbatim>\<open>greedyFAS\<close> replaces a pair whose source is a node of the original multigraph by all
  edges of that multigraph between the same endpoints (\<^const>\<open>parallel_edges\<close>). The example runs
  it on the hand-built state whose entries carry \<^verbatim>\<open>v\<close>; no run of \<^verbatim>\<open>greedyFAS\<close> reaches such a
  state, as is shown further down.
\<close>

lemma removeNode_given_v:
  assumes "removeNode g buckets zeroIdx entry True S = Inr (results, g', S')"
  shows "results = map (\<lambda>(u, w, name). (u, w)) (iterated (inEdges g (v_of S entry)))
       \<and> g' = removeNode_graph (v_of S entry) g
       \<and> (\<forall>g0 :: ('g, 'n, 'e) graph. list_all (\<lambda>(u, w). hasNode g0 u) results \<longrightarrow>
            expand_multi_edges g0 results =
              concat (map (\<lambda>(u, w). map Some (parallel_edges g0 u w)) results))"
proof -
  from assms obtain S1 where
    l1: "forEach
                (\<lambda>(u, w, name) (results, S).
                   case edge g (u, w, name) of
                     None \<Rightarrow> Inl TypeError
                   | Some wgt \<Rightarrow>
                       (case node_label g u of
                          None \<Rightarrow> Inl TypeError
                        | Some uEntry \<Rightarrow>
                            let results = (if True
                                           then results @ [(u, w)]
                                           else results);
                                S = S\<lparr>out_of := (out_of S)(uEntry := out_of S uEntry - wgt)\<rparr>
                            in (case assignBucket buckets zeroIdx uEntry S of
                                  Inl err \<Rightarrow> Inl err
                                | Inr S \<Rightarrow> Inr (results, S))))
                (iterated (inEdges g (v_of S entry))) ([], S) = Inr (results, S1)"
    and g': "g' = removeNode_graph (v_of S1 entry) g"
    by (auto simp: removeNode_def Let_def split: sum.splits prod.splits)
  from collect_loop[OF l1] have r: "results = map (\<lambda>(u, w, name). (u, w)) (iterated (inEdges g (v_of S entry)))"
    and v: "v_of S1 = v_of S" by simp_all
  have "expand_multi_edges g0 rs = concat (map (\<lambda>(u, w). map Some (parallel_edges g0 u w)) rs)"
    if "list_all (\<lambda>(u, w). hasNode g0 u) rs" for g0 :: "('g, 'n, 'e) graph" and rs
    using that by (induction rs) (auto simp: expand_multi_edges_def outEdges_to_parallel)
  with r g' v show ?thesis by simp
qed

lemma removeNode_given_v_example:
  "\<exists>g' S'. removeNode two_cycle_working_graph two_cycle_buckets 4 1 True two_cycle_store
             = Inr ([(''a'', ''b'')], g', S')
         \<and> nodes g' = [''a'']
         \<and> expand_multi_edges two_parallel_graph [(''a'', ''b'')]
             = [Some (''a'', ''b'', Some ''x''), Some (''a'', ''b'', Some ''y'')]"
proof -
  have "\<exists>results g' S'.
          removeNode two_cycle_working_graph two_cycle_buckets 4 1 True two_cycle_store
            = Inr (results, g', S')"
    by (simp add: removeNode_def two_cycle_working_graph_def two_cycle_buckets_def
        two_cycle_store_def inEdges_def outEdges_def iterated_def hasNode_def nodes_def
        edges_def edge_def node_label_def node_def assignBucket_def bucket_at_def
        enqueue_def unlink_def Let_def)
  then obtain results g' S' where
    run: "removeNode two_cycle_working_graph two_cycle_buckets 4 1 True two_cycle_store
            = Inr (results, g', S')" by blast
  have v: "v_of two_cycle_store 1 = Some ''b''" "v_of two_cycle_store (Suc 0) = Some ''b''"
    by (simp_all add: two_cycle_store_def)
  have ie: "iterated (inEdges two_cycle_working_graph (Some ''b'')) = [(''a'', ''b'', None)]"
    by (simp add: inEdges_def iterated_def hasNode_def nodes_def edges_def
        two_cycle_working_graph_def)
  have hn: "hasNode two_parallel_graph ''a''"
    by (simp add: hasNode_def nodes_def two_parallel_graph_def)
  have pe: "parallel_edges two_parallel_graph ''a'' ''b''
              = [(''a'', ''b'', Some ''x''), (''a'', ''b'', Some ''y'')]"
    by (simp add: parallel_edges_def edges_def two_parallel_graph_def)
  from removeNode_given_v[OF run, where ?'g = unit and ?'n = unit and ?'e = unit]
  have r: "results = [(''a'', ''b'')]"
    and g: "g' = removeNode_graph (Some ''b'') two_cycle_working_graph"
    and ex: "list_all (\<lambda>(u, w). hasNode two_parallel_graph u) results \<longrightarrow>
            expand_multi_edges two_parallel_graph results =
              concat (map (\<lambda>(u, w). map Some (parallel_edges two_parallel_graph u w)) results)"
    by (auto simp: v ie)
  have "nodes g' = [''a'']"
    by (simp add: g removeNode_graph_def hasNode_def nodes_def two_cycle_working_graph_def)
  then show ?thesis using run r ex hn pe by simp
qed

lemma pick_interior_no_arcs:
  assumes "pick_interior i buckets zeroIdx g S = Inr (rs, g', S')" and "v_of S = (\<lambda>_. None)"
  shows "rs = [] \<and> g' = g \<and> v_of S' = (\<lambda>_. None)"
  using assms
proof (induction i arbitrary: S)
  case 0
  then show ?case by simp
next
  case (Suc i)
  show ?case
  proof (cases "dequeue (buckets ! Suc i) S")
    case (Inl err)
    then show ?thesis using Suc.prems by simp
  next
    case (Inr p)
    obtain r S1 where p: "p = (r, S1)" by (cases p)
    have v1: "v_of S1 = (\<lambda>_. None)" using dequeue_data(1)[OF Inr[unfolded p]] Suc.prems(2) by simp
    show ?thesis
    proof (cases r)
      case None
      then show ?thesis using Suc.IH[OF _ v1] Suc.prems(1) Inr p by simp
    next
      case (Some entry)
      have "v_of S1 entry = None" using v1 by simp
      from removeNode_no_v[OF this] show ?thesis using Suc.prems(1) Inr p Some v1 by simp
    qed
  qed
qed

lemma doGreedyFAS_no_arcs:
  assumes run: "doGreedyFAS g buckets zeroIdx S = Some (Inr results)"
    and nov: "v_of S = (\<lambda>_. None)"
  shows "results = [] \<and> nodeCount g = 0"
proof -
  from doGreedyFAS_loop_no_v[OF run[unfolded doGreedyFAS_def]] nov
  have n: "nodeCount g = 0" by simp
  have "doGreedyFAS g buckets zeroIdx S = Some (Inr [])"
    unfolding doGreedyFAS_def by (subst doGreedyFAS_loop.simps) (simp add: n)
  with run n show ?thesis by simp
qed

lemma build_two_parallel:
  "\<exists>fasGraph S.
      buildState same_ids (\<lambda>_. 1) two_parallel_graph = Inr (fasGraph, [2, 3, 4, 5, 6, 7, 8], 3, S)
    \<and> g_nodes fasGraph = [(''a'', Some 0), (''b'', Some 1)]
    \<and> g_edges fasGraph = [((''a'', ''b'', None), 2), ((''b'', ''a'', None), 1)]
    \<and> prev_of S 6 = Some 0 \<and> prev_of S 7 = Some 7 \<and> prev_of S 0 = Some 6 \<and> next_of S 0 = Some 6"
  by (simp add: two_parallel_graph_def build_simps same_ids_def setEdge_def ensureNode_def
      hasNode_def edge_def)

text \<open>
  Claim C9, at the failing input. Within \<^verbatim>\<open>greedyFAS\<close> no removal emits an in-edge. Every state
  that \<^verbatim>\<open>buildState\<close> returns, whatever ids \<^verbatim>\<open>addNode\<close> chooses, has entries without \<^verbatim>\<open>v\<close>, and no
  statement of the loops assigns \<^verbatim>\<open>v\<close>. So in that state and in every later one (every store
  with the same \<^verbatim>\<open>v\<close> properties, with any working graph) \<^verbatim>\<open>removeNode\<close> with
  \<^verbatim>\<open>collectPredecessors = true\<close> emits the empty list and removes no node, the \<^verbatim>\<open>for\<close> loop over
  the interior buckets records nothing, and \<^verbatim>\<open>doGreedyFAS\<close> and \<^verbatim>\<open>greedyFAS\<close> return the empty list
  when they return at all: no recorded arc is ever expanded. The claim has the emitted
  list be the in-edges of the removed node.

  The instance after it is the multigraph with two edges from \<open>a\<close> to \<open>b\<close> and one from \<open>b\<close> to
  \<open>a\<close>, all of weight 1, with \<^verbatim>\<open>addNode\<close> choosing the ids \<open>a\<close> and \<open>b\<close> themselves, so that
  \<^verbatim>\<open>buildState\<close> returns. The first interior entry taken is that of node \<open>a\<close>, from bucket 4.
  Node \<open>a\<close> has the in-edge from \<open>b\<close> in the working graph; the removal emits nothing and
  leaves the graph as it was.
\<close>

theorem greedyFAS_records_no_arc:
  assumes "buildState new_id weightFn g = Inr (fasGraph, buckets, zeroIdx, S)"
  shows "(\<forall>entry. v_of S entry = None)
       \<and> (\<forall>T h entry. v_of T = v_of S \<longrightarrow>
            removeNode h buckets zeroIdx entry True T = Inr ([], h, T))
       \<and> (\<forall>i T h rs h' T'. v_of T = v_of S \<longrightarrow>
            pick_interior i buckets zeroIdx h T = Inr (rs, h', T') \<longrightarrow>
            rs = [] \<and> h' = h \<and> v_of T' = v_of S)
       \<and> (\<forall>results. doGreedyFAS fasGraph buckets zeroIdx S = Some (Inr results) \<longrightarrow>
            results = [])
       \<and> (\<forall>fas. greedyFAS new_id g weightFn = Some (Inr fas) \<longrightarrow> fas = [])"
proof -
  from buildState_no_v[OF assms] have v: "v_of S = (\<lambda>_. None)" by simp
  have c1: "\<forall>entry. v_of S entry = None" using v by simp
  have c2: "\<forall>T h entry. v_of T = v_of S \<longrightarrow>
            removeNode h buckets zeroIdx entry True T = Inr ([], h, T)"
    using removeNode_no_v v by simp
  have c3: "\<forall>i T h rs h' T'. v_of T = v_of S \<longrightarrow>
            pick_interior i buckets zeroIdx h T = Inr (rs, h', T') \<longrightarrow>
            rs = [] \<and> h' = h \<and> v_of T' = v_of S"
    using pick_interior_no_arcs v by metis
  have c4: "\<forall>results. doGreedyFAS fasGraph buckets zeroIdx S = Some (Inr results) \<longrightarrow>
            results = []"
    using doGreedyFAS_no_arcs v by blast
  have c5: "\<forall>fas. greedyFAS new_id g weightFn = Some (Inr fas) \<longrightarrow> fas = []"
    using assms c4
    by (auto simp: greedyFAS_def expand_multi_edges_def split: if_splits option.splits sum.splits)
  from c1 c2 c3 c4 c5 show ?thesis by blast
qed

theorem greedyFAS_records_no_arc_witness:
  "\<exists>fasGraph buckets zeroIdx S S'.
      buildState same_ids (\<lambda>_. 1) two_parallel_graph = Inr (fasGraph, buckets, zeroIdx, S)
    \<and> node_label fasGraph ''a'' = Some 0
    \<and> inEdges fasGraph (Some ''a'') = Some [(''b'', ''a'', None)]
    \<and> dequeue (buckets ! 4) S = Inr (Some 0, S')
    \<and> removeNode fasGraph buckets zeroIdx 0 True S' = Inr ([], fasGraph, S')
    \<and> pick_interior (length buckets - 2) buckets zeroIdx fasGraph S = Inr ([], fasGraph, S')"
proof -
  from build_two_parallel obtain fasGraph S where
    b: "buildState same_ids (\<lambda>_. 1) two_parallel_graph
          = Inr (fasGraph, [2, 3, 4, 5, 6, 7, 8], 3, S)"
    and ns: "g_nodes fasGraph = [(''a'', Some 0), (''b'', Some 1)]"
    and es: "g_edges fasGraph = [((''a'', ''b'', None), 2), ((''b'', ''a'', None), 1)]"
    and l: "prev_of S 6 = Some 0" "prev_of S 7 = Some 7" "prev_of S 0 = Some 6"
      "next_of S 0 = Some 6"
    by blast
  let ?S' = "S\<lparr>next_of := (next_of S)(6 \<mapsto> 6), prev_of := (prev_of S)(6 \<mapsto> 6)\<rparr>"
  have nl: "node_label fasGraph ''a'' = Some 0" by (simp add: node_label_def node_def ns)
  have ie: "inEdges fasGraph (Some ''a'') = Some [(''b'', ''a'', None)]"
    by (simp add: inEdges_def hasNode_def nodes_def edges_def ns es)
  have d7: "dequeue 7 S = Inr (None, S)" using l by (simp add: dequeue_def)
  have d6: "dequeue 6 S = Inr (Some 0, ?S')"
    using l by (simp add: dequeue_def unlink_def Let_def)
  have "v_of ?S' = v_of S" by simp
  with greedyFAS_records_no_arc[OF b]
  have rm: "removeNode fasGraph [2, 3, 4, 5, 6, 7, 8] 3 0 True ?S' = Inr ([], fasGraph, ?S')"
    by blast
  have "buildState same_ids (\<lambda>_. 1) two_parallel_graph
          = Inr (fasGraph, [2, 3, 4, 5, 6, 7, 8], 3, S)
    \<and> node_label fasGraph ''a'' = Some 0
    \<and> inEdges fasGraph (Some ''a'') = Some [(''b'', ''a'', None)]
    \<and> dequeue ([2, 3, 4, 5, 6, 7, 8] ! 4) S = Inr (Some 0, ?S')
    \<and> removeNode fasGraph [2, 3, 4, 5, 6, 7, 8] 3 0 True ?S' = Inr ([], fasGraph, ?S')
    \<and> pick_interior (length [2, 3, 4, 5, 6, 7, 8 :: ref] - 2) [2, 3, 4, 5, 6, 7, 8] 3 fasGraph S
          = Inr ([], fasGraph, ?S')"
    using b nl ie d6 d7 rm by simp
  then show ?thesis by blast
qed

end
